theory Spec2Isabelle
  imports Complex_Main "HOL-Library.Char_ord" "HOL-Library.List_Lexorder"
begin

section \<open>Data model of verify-contracts.ts\<close>

text \<open>
  The interfaces of the source become records, the string-literal unions become datatypes.
  Field names carry a prefix naming their record, as several interfaces of the source share
  the field names \<open>name\<close>, \<open>line\<close> and \<open>type\<close>.  Line numbers are natural numbers, optional
  fields are options.
\<close>

record ImportInfo =
  imp_name :: string
  imp_source :: string
  imp_line :: nat

datatype kind = Interface | TypeAlias | Enum | Const

record PropertyInfo =
  prop_name :: string
  prop_type :: string
  prop_optional :: bool

record TypeDefinition =
  td_name :: string
  td_kind :: kind
  td_properties :: "PropertyInfo list"
  td_rawContent :: string
  td_line :: nat

record ParameterInfo =
  par_name :: string
  par_type :: string
  par_optional :: bool

record ServiceMethod =
  sm_name :: string
  sm_parameters :: "ParameterInfo list"
  sm_returnType :: string
  sm_line :: nat

record ApiRoute =
  ar_method :: string
  ar_path :: string
  ar_requestType :: "string option"
  ar_responseType :: "string option"
  ar_line :: nat

record ParsedContract =
  pc_filePath :: string
  pc_name :: string
  pc_imports :: "ImportInfo list"
  pc_types :: "TypeDefinition list"
  pc_serviceMethods :: "ServiceMethod list"
  pc_apiRoutes :: "ApiRoute list"

datatype severity = Error | Warning

datatype category = Import | Naming | TypeShape | CircularDep

record VerificationIssue =
  vi_severity :: severity
  vi_category :: category
  vi_message :: string
  vi_file :: string
  vi_line :: "nat option"
  vi_suggestion :: "string option"

record DependencyNode =
  dn_name :: string
  dependencies :: "string list"

record Stats =
  totalContracts :: nat
  totalTypes :: nat
  totalImports :: nat
  totalServiceMethods :: nat
  totalApiRoutes :: nat

record VerificationReport =
  timestamp :: nat
  primitivesFile :: string
  contractFiles :: "string list"
  issues :: "VerificationIssue list"
  stats :: Stats
  dependencyGraph :: "DependencyNode list"
  passed :: bool

subsection \<open>JavaScript maps\<close>

text \<open>
  A JavaScript \<open>Map\<close> keeps its entries in insertion order; \<open>set\<close> on a key that is
  present replaces the value and keeps the entry's position.  It is modelled as an
  association list: \<open>jsmap_set\<close> is \<open>Map.prototype.set\<close>, \<open>map_of\<close> is \<open>get\<close>, \<open>map fst\<close> is
  \<open>keys()\<close>, and \<open>jsmap_of_list\<close> is the constructor \<open>new Map(entries)\<close>.
\<close>

type_synonym 'v jsmap = "(string \<times> 'v) list"

fun jsmap_set :: "'v jsmap \<Rightarrow> string \<Rightarrow> 'v \<Rightarrow> 'v jsmap" where
  "jsmap_set [] k v = [(k, v)]"
| "jsmap_set ((k', v') # m) k v =
     (if k' = k then (k, v) # m else (k', v') # jsmap_set m k v)"

definition jsmap_has :: "'v jsmap \<Rightarrow> string \<Rightarrow> bool" where
  "jsmap_has m k = (map_of m k \<noteq> None)"

definition jsmap_of_list :: "(string \<times> 'v) list \<Rightarrow> 'v jsmap" where
  "jsmap_of_list es = foldl (\<lambda>m (k, v). jsmap_set m k v) [] es"

record SharedPrimitives =
  prim_types :: "TypeDefinition jsmap"
  prim_filePath :: string

section \<open>Report generation\<close>

text \<open>
  \<open>generateReport\<close> (lines 799-822).  The time stamp \<open>new Date()\<close> is the one input that
  is not an argument of the source function; it is passed in as \<open>now\<close>.
\<close>

definition generateReport ::
  "nat \<Rightarrow> SharedPrimitives \<Rightarrow> ParsedContract list \<Rightarrow> VerificationIssue list
     \<Rightarrow> DependencyNode list \<Rightarrow> VerificationReport" where
  "generateReport now primitives contracts issues' dependencyGraph' =
     (let errorCount = length (filter (\<lambda>i. vi_severity i = Error) issues') in
      \<lparr> timestamp = now,
        primitivesFile = prim_filePath primitives,
        contractFiles = map pc_filePath contracts,
        issues = issues',
        stats = \<lparr>
          totalContracts = length contracts,
          totalTypes = foldl (\<lambda>sum c. sum + length (pc_types c)) 0 contracts
                         + length (prim_types primitives),
          totalImports = foldl (\<lambda>sum c. sum + length (pc_imports c)) 0 contracts,
          totalServiceMethods = foldl (\<lambda>sum c. sum + length (pc_serviceMethods c)) 0 contracts,
          totalApiRoutes = foldl (\<lambda>sum c. sum + length (pc_apiRoutes c)) 0 contracts \<rparr>,
        dependencyGraph = dependencyGraph',
        passed = (errorCount = 0) \<rparr>)"

section \<open>Field-type compatibility\<close>

text \<open>
  \<open>areTypesCompatible\<close> (lines 774-793).  Strings are byte strings: \<open>toLowerCase\<close> maps the
  letters A-Z to a-z, and \<open>\s\<close> is the ASCII white space (tab, line feed, vertical tab, form
  feed, carriage return, space).
\<close>

definition toLowerCase_char :: "char \<Rightarrow> char" where
  "toLowerCase_char c =
     (if CHR ''A'' \<le> c \<and> c \<le> CHR ''Z'' then char_of (of_char c + (32::nat)) else c)"

definition toLowerCase :: "string \<Rightarrow> string" where
  "toLowerCase s = map toLowerCase_char s"

definition is_space :: "char \<Rightarrow> bool" where
  "is_space c = (c \<in> set [CHR 0x09, CHR 0x0A, CHR 0x0B, CHR 0x0C, CHR 0x0D, CHR 0x20])"

definition normalize :: "string \<Rightarrow> string" where
  "normalize t = filter (\<lambda>c. \<not> is_space c) (toLowerCase t)"

definition equivalences :: "(string \<times> string) list" where
  "equivalences =
     [(''string'', ''String''),
      (''number'', ''Number''),
      (''boolean'', ''Boolean''),
      (''Date'', ''string'')]"

fun equivalences_loop :: "(string \<times> string) list \<Rightarrow> string \<Rightarrow> string \<Rightarrow> bool" where
  "equivalences_loop [] type1 type2 = False"
| "equivalences_loop ((a, b) # rest) type1 type2 =
     (if (type1 = a \<and> type2 = b) \<or> (type1 = b \<and> type2 = a) then True
      else equivalences_loop rest type1 type2)"

definition areTypesCompatible :: "string \<Rightarrow> string \<Rightarrow> bool" where
  "areTypesCompatible type1 type2 =
     (if normalize type1 = normalize type2 then True
      else equivalences_loop equivalences type1 type2)"

section \<open>String helpers\<close>

text \<open>\<open>String.prototype.startsWith\<close> and \<open>String.prototype.includes\<close>.\<close>

definition startsWith :: "string \<Rightarrow> string \<Rightarrow> bool" where
  "startsWith s p = (take (length p) s = p)"

fun includes_str :: "string \<Rightarrow> string \<Rightarrow> bool" where
  "includes_str [] p = (p = [])"
| "includes_str (c # s) p = (startsWith (c # s) p \<or> includes_str s p)"

section \<open>Import resolution\<close>

text \<open>
  \<open>checkImportResolution\<close> (lines 488-532).  \<open>availableTypes\<close> is the map from every declared
  name to the file declaring it; only its key set is read.  The two loops over the contracts
  and their imports push to \<open>issues\<close>; each \<open>continue\<close> leaves the list as it is.
\<close>

definition availableTypes_of :: "ParsedContract list \<Rightarrow> SharedPrimitives \<Rightarrow> string jsmap" where
  "availableTypes_of contracts primitives =
     foldl (\<lambda>m contract.
              foldl (\<lambda>m t. jsmap_set m (td_name t) (pc_filePath contract)) m (pc_types contract))
       (jsmap_of_list (map (\<lambda>k. (k, prim_filePath primitives)) (map fst (prim_types primitives))))
       contracts"

definition externalLibraries :: "string list" where
  "externalLibraries =
     [''zod'', ''express'', ''prisma'', ''@prisma/client'', ''date-fns'', ''lodash'']"

definition unresolved_import_issue :: "ParsedContract \<Rightarrow> ImportInfo \<Rightarrow> VerificationIssue" where
  "unresolved_import_issue contract imp =
     \<lparr> vi_severity = Error,
       vi_category = Import,
       vi_message = ''Unresolved import: '' @ [CHR 0x27] @ imp_name imp @ [CHR 0x27]
                      @ '' from '' @ [CHR 0x27] @ imp_source imp @ [CHR 0x27],
       vi_file = pc_filePath contract,
       vi_line = Some (imp_line imp),
       vi_suggestion = Some (''Ensure '' @ [CHR 0x27] @ imp_name imp @ [CHR 0x27]
                      @ '' is defined in shared primitives or another contract'') \<rparr>"

definition checkImportResolution ::
  "ParsedContract list \<Rightarrow> SharedPrimitives \<Rightarrow> VerificationIssue list" where
  "checkImportResolution contracts primitives =
     (let availableTypes = availableTypes_of contracts primitives in
      foldl (\<lambda>issues contract.
        foldl (\<lambda>issues imp.
          if imp_source imp \<in> set externalLibraries \<or> startsWith (imp_source imp) ''@''
          then issues
          else if startsWith (imp_source imp) ''.'' \<and> \<not> includes_str (imp_source imp) ''shared''
          then issues
          else if jsmap_has availableTypes (imp_name imp)
          then issues
          else issues @ [unresolved_import_issue contract imp])
        issues (pc_imports contract))
      [] contracts)"

section \<open>Type shape compatibility\<close>

text \<open>
  \<open>checkTypeShapeCompatibility\<close> (lines 671-772).  An entry \<open>{ type, file }\<close> of
  \<open>typesByName\<close> is the pair \<open>(type, file)\<close>.  \<open>typesByName.get(name)!.push(d)\<close> changes the
  array stored under the key, which is \<open>set\<close> of the longer array in the model.
\<close>

type_synonym definition_entry = "TypeDefinition \<times> string"

definition typesByName_of ::
  "ParsedContract list \<Rightarrow> SharedPrimitives \<Rightarrow> (definition_entry list) jsmap" where
  "typesByName_of contracts primitives =
     (let m0 = foldl (\<lambda>m (name, t). jsmap_set m name [(t, prim_filePath primitives)])
                 [] (prim_types primitives) in
      foldl (\<lambda>m contract.
        foldl (\<lambda>m t.
          let m' = (if \<not> jsmap_has m (td_name t) then jsmap_set m (td_name t) [] else m) in
          (case map_of m' (td_name t) of
             Some ds \<Rightarrow> jsmap_set m' (td_name t) (ds @ [(t, pc_filePath contract)])
           | None \<Rightarrow> m'))
        m (pc_types contract))
      m0 contracts)"

definition props_map :: "TypeDefinition \<Rightarrow> PropertyInfo jsmap" where
  "props_map t = jsmap_of_list (map (\<lambda>p. (prop_name p, p)) (td_properties t))"

definition missing_property_issue ::
  "string \<Rightarrow> string \<Rightarrow> PropertyInfo \<Rightarrow> definition_entry \<Rightarrow> definition_entry
     \<Rightarrow> VerificationIssue" where
  "missing_property_issue name propName prop baseline current =
     \<lparr> vi_severity = Error,
       vi_category = TypeShape,
       vi_message = ''Type '' @ [CHR 0x27] @ name @ [CHR 0x27] @ '' is missing property ''
                      @ [CHR 0x27] @ propName @ [CHR 0x27] @ '' in '' @ snd current,
       vi_file = snd current,
       vi_line = Some (td_line (fst current)),
       vi_suggestion = Some (''Add property '' @ [CHR 0x27] @ propName @ '': '' @ prop_type prop
                      @ [CHR 0x27] @ '' to match '' @ snd baseline) \<rparr>"

definition type_mismatch_issue ::
  "string \<Rightarrow> string \<Rightarrow> PropertyInfo \<Rightarrow> PropertyInfo \<Rightarrow> definition_entry \<Rightarrow> definition_entry
     \<Rightarrow> VerificationIssue" where
  "type_mismatch_issue name propName baseProp prop baseline current =
     \<lparr> vi_severity = Error,
       vi_category = TypeShape,
       vi_message = ''Type mismatch for '' @ [CHR 0x27] @ name @ ''.'' @ propName @ [CHR 0x27]
                      @ '': '' @ [CHR 0x27] @ prop_type baseProp @ [CHR 0x27] @ '' in ''
                      @ snd baseline @ '' vs '' @ [CHR 0x27] @ prop_type prop @ [CHR 0x27]
                      @ '' in '' @ snd current,
       vi_file = snd current,
       vi_line = Some (td_line (fst current)),
       vi_suggestion = Some (''Ensure '' @ [CHR 0x27] @ propName @ [CHR 0x27]
                      @ '' has consistent type across all definitions'') \<rparr>"

definition optionality_str :: "bool \<Rightarrow> string" where
  "optionality_str opt = (if opt then ''optional'' else ''required'')"

definition optionality_issue ::
  "string \<Rightarrow> string \<Rightarrow> PropertyInfo \<Rightarrow> PropertyInfo \<Rightarrow> definition_entry \<Rightarrow> definition_entry
     \<Rightarrow> VerificationIssue" where
  "optionality_issue name propName baseProp prop baseline current =
     \<lparr> vi_severity = Warning,
       vi_category = TypeShape,
       vi_message = ''Optionality mismatch for '' @ [CHR 0x27] @ name @ ''.'' @ propName
                      @ [CHR 0x27] @ '': '' @ optionality_str (prop_optional baseProp) @ '' in ''
                      @ snd baseline @ '' vs '' @ optionality_str (prop_optional prop)
                      @ '' in '' @ snd current,
       vi_file = snd current,
       vi_line = Some (td_line (fst current)),
       vi_suggestion = Some (''Ensure '' @ [CHR 0x27] @ propName @ [CHR 0x27]
                      @ '' has consistent optionality'') \<rparr>"

text \<open>The body of the loop \<open>for (let i = 1; i < interfaces.length; i++)\<close>.\<close>

definition compare_to_baseline ::
  "string \<Rightarrow> definition_entry \<Rightarrow> VerificationIssue list \<Rightarrow> definition_entry
     \<Rightarrow> VerificationIssue list" where
  "compare_to_baseline name baseline issues0 current =
     (let baselineProps = props_map (fst baseline);
          currentProps = props_map (fst current);
          issues1 = foldl (\<lambda>issues (propName, prop).
                      if \<not> jsmap_has currentProps propName
                      then issues @ [missing_property_issue name propName prop baseline current]
                      else issues)
                    issues0 baselineProps
      in foldl (\<lambda>issues (propName, prop).
           (case map_of baselineProps propName of
              None \<Rightarrow> issues
            | Some baseProp \<Rightarrow>
                (let issues' =
                   (if prop_type baseProp \<noteq> prop_type prop
                       \<and> \<not> areTypesCompatible (prop_type baseProp) (prop_type prop)
                    then issues @ [type_mismatch_issue name propName baseProp prop baseline current]
                    else issues)
                 in if prop_optional baseProp \<noteq> prop_optional prop
                    then issues' @ [optionality_issue name propName baseProp prop baseline current]
                    else issues')))
         issues1 currentProps)"

text \<open>The body of the loop over the entries of \<open>typesByName\<close>.\<close>

definition compare_definitions ::
  "VerificationIssue list \<Rightarrow> string \<times> definition_entry list \<Rightarrow> VerificationIssue list" where
  "compare_definitions issues0 entry =
     (case entry of (name, definitions) \<Rightarrow>
        if length definitions \<le> 1 then issues0
        else (let interfaces = filter (\<lambda>d. td_kind (fst d) = Interface) definitions in
              if length interfaces > 1
              then foldl (compare_to_baseline name (hd interfaces)) issues0 (tl interfaces)
              else issues0))"

definition kind_str :: "kind \<Rightarrow> string" where
  "kind_str k = (case k of Interface \<Rightarrow> ''interface'' | TypeAlias \<Rightarrow> ''type''
                 | Enum \<Rightarrow> ''enum'' | Const \<Rightarrow> ''const'')"

definition redefined_import_issue ::
  "ParsedContract \<Rightarrow> ImportInfo \<Rightarrow> TypeDefinition \<Rightarrow> TypeDefinition \<Rightarrow> VerificationIssue" where
  "redefined_import_issue contract imp localDef primitiveDef =
     \<lparr> vi_severity = Error,
       vi_category = TypeShape,
       vi_message = ''Import '' @ [CHR 0x27] @ imp_name imp @ [CHR 0x27] @ '' is redefined as ''
                      @ kind_str (td_kind localDef) @ '' but primitives defines it as ''
                      @ kind_str (td_kind primitiveDef),
       vi_file = pc_filePath contract,
       vi_line = Some (td_line localDef),
       vi_suggestion = Some (''Remove local definition and use the imported type, ''
                      @ ''or rename to avoid conflict'') \<rparr>"

text \<open>The body of the last loop, over the imports of one contract.\<close>

definition check_redefined_import ::
  "SharedPrimitives \<Rightarrow> ParsedContract \<Rightarrow> VerificationIssue list \<Rightarrow> ImportInfo
     \<Rightarrow> VerificationIssue list" where
  "check_redefined_import primitives contract issues0 imp =
     (case find (\<lambda>t. td_name t = imp_name imp) (pc_types contract) of
        None \<Rightarrow> issues0
      | Some localDef \<Rightarrow>
          (case map_of (prim_types primitives) (imp_name imp) of
             None \<Rightarrow> issues0
           | Some primitiveDef \<Rightarrow>
               if td_kind localDef \<noteq> td_kind primitiveDef
               then issues0 @ [redefined_import_issue contract imp localDef primitiveDef]
               else issues0))"

definition checkTypeShapeCompatibility ::
  "ParsedContract list \<Rightarrow> SharedPrimitives \<Rightarrow> VerificationIssue list" where
  "checkTypeShapeCompatibility contracts primitives =
     (let typesByName = typesByName_of contracts primitives;
          issues1 = foldl compare_definitions [] typesByName
      in foldl (\<lambda>issues contract.
                  foldl (check_redefined_import primitives contract) issues (pc_imports contract))
           issues1 contracts)"

section \<open>Edit distance and similar names\<close>

text \<open>
  \<open>levenshteinDistance\<close> (lines 111-137).  The matrix is a list of rows.  An assignment
  \<open>row[j] = v\<close> overwrites index \<open>j\<close> when the row has it and appends \<open>v\<close> when \<open>j\<close> is the
  length of the row; the loops never write further out.  Each \<open>for\<close> loop is a recursion
  over the list of its index values.
\<close>

definition arr_set :: "'a list \<Rightarrow> nat \<Rightarrow> 'a \<Rightarrow> 'a list" where
  "arr_set xs j v = (if j < length xs then xs[j := v] else xs @ [v])"

definition lev_cell :: "string \<Rightarrow> string \<Rightarrow> nat list list \<Rightarrow> nat \<Rightarrow> nat \<Rightarrow> nat" where
  "lev_cell a b matrix i j =
     (if b ! (i - 1) = a ! (j - 1) then matrix ! (i - 1) ! (j - 1)
      else min (matrix ! (i - 1) ! (j - 1) + 1)
             (min (matrix ! i ! (j - 1) + 1) (matrix ! (i - 1) ! j + 1)))"

fun init_cols :: "nat list \<Rightarrow> nat list list \<Rightarrow> nat list list" where
  "init_cols [] matrix = matrix"
| "init_cols (j # js) matrix = init_cols js (matrix[0 := arr_set (matrix ! 0) j j])"

fun fill_row :: "string \<Rightarrow> string \<Rightarrow> nat \<Rightarrow> nat list \<Rightarrow> nat list list \<Rightarrow> nat list list" where
  "fill_row a b i [] matrix = matrix"
| "fill_row a b i (j # js) matrix =
     fill_row a b i js (matrix[i := arr_set (matrix ! i) j (lev_cell a b matrix i j)])"

fun fill_rows :: "string \<Rightarrow> string \<Rightarrow> nat list \<Rightarrow> nat list list \<Rightarrow> nat list list" where
  "fill_rows a b [] matrix = matrix"
| "fill_rows a b (i # is) matrix =
     fill_rows a b is (fill_row a b i [1..<length a + 1] matrix)"

definition levenshteinDistance :: "string \<Rightarrow> string \<Rightarrow> nat" where
  "levenshteinDistance a b =
     fill_rows a b [1..<length b + 1]
       (init_cols [0..<length a + 1] (map (\<lambda>i. [i]) [0..<length b + 1]))
     ! length b ! length a"

text \<open>
  \<open>similarityRatio\<close> (lines 139-143).  The ratio is an exact rational number here, a double
  in the source.  The comparisons the source makes with it (\<open>ratio >= 0.85\<close>, \<open>ratio < 1\<close>)
  have the same outcome for both: the quotient of two lengths either is \<open>3/20\<close>, whose
  double is the double of \<open>0.15\<close> and gives \<open>1 - 0.15 = 0.85\<close> in doubles too, or differs
  from \<open>3/20\<close> by at least \<open>1 / (20 * maxLen)\<close>, far more than the rounding error.
\<close>

definition similarityRatio :: "string \<Rightarrow> string \<Rightarrow> rat" where
  "similarityRatio a b =
     (let maxLen = max (length a) (length b) in
      if maxLen = 0 then 1
      else 1 - of_nat (levenshteinDistance a b) / of_nat maxLen)"

text \<open>
  \<open>findSimilarNames\<close> (lines 145-169).  \<open>[...new Set(names)]\<close> keeps the first occurrence of
  every name (\<open>uniqueNames_of\<close>); \<open>[name1, name2].sort().join('|')\<close> orders the two strings
  by their character codes.  The loop state is the pair of \<open>similar\<close> and \<open>seenPairs\<close>.
\<close>

definition uniqueNames_of :: "string list \<Rightarrow> string list" where
  "uniqueNames_of names = foldl (\<lambda>acc n. if n \<in> set acc then acc else acc @ [n]) [] names"

fun join :: "string \<Rightarrow> string list \<Rightarrow> string" where
  "join sep [] = []"
| "join sep [x] = x"
| "join sep (x # y # ys) = x @ sep @ join sep (y # ys)"

definition pairKey_of :: "string \<Rightarrow> string \<Rightarrow> string" where
  "pairKey_of name1 name2 = join ''|'' (sort [name1, name2])"

type_synonym similar_state = "(string \<times> string \<times> rat) list \<times> string set"

definition similar_step :: "rat \<Rightarrow> string list \<Rightarrow> nat \<Rightarrow> similar_state \<Rightarrow> nat \<Rightarrow> similar_state" where
  "similar_step threshold uniqueNames i st j =
     (case st of (similar, seenPairs) \<Rightarrow>
        (let name1 = uniqueNames ! i;
             name2 = uniqueNames ! j in
         if name1 = name2 then st
         else (let pairKey = pairKey_of name1 name2 in
               if pairKey \<in> seenPairs then st
               else (let ratio = similarityRatio (toLowerCase name1) (toLowerCase name2) in
                     if ratio \<ge> threshold \<and> ratio < 1
                     then (similar @ [(name1, name2, ratio)], insert pairKey seenPairs)
                     else st))))"

definition similar_outer :: "rat \<Rightarrow> string list \<Rightarrow> similar_state \<Rightarrow> nat \<Rightarrow> similar_state" where
  "similar_outer threshold uniqueNames st i =
     foldl (similar_step threshold uniqueNames i) st [i + 1..<length uniqueNames]"

definition findSimilarNames :: "string list \<Rightarrow> rat \<Rightarrow> (string \<times> string \<times> rat) list" where
  "findSimilarNames names threshold =
     (let uniqueNames = uniqueNames_of names in
      fst (foldl (similar_outer threshold uniqueNames) ([], {}) [0..<length uniqueNames]))"

section \<open>Naming consistency\<close>

text \<open>
  \<open>checkNamingConsistency\<close> (lines 579-669).  Each of the eight regular expressions of
  \<open>expectedPatternPairs\<close> has the shape \<open>^P\w+S$\<close> with literal \<open>P\<close> and \<open>S\<close>; it is kept as
  the pair \<open>(P, S)\<close>, and \<open>test_pattern\<close> is \<open>RegExp.prototype.test\<close> for that shape: the name
  begins with \<open>P\<close>, ends with \<open>S\<close>, and what lies between is a non-empty run of word
  characters.
\<close>

definition is_word_char :: "char \<Rightarrow> bool" where
  "is_word_char c =
     ((CHR ''a'' \<le> c \<and> c \<le> CHR ''z'') \<or> (CHR ''A'' \<le> c \<and> c \<le> CHR ''Z'')
      \<or> (CHR ''0'' \<le> c \<and> c \<le> CHR ''9'') \<or> c = CHR ''_'')"

definition test_pattern :: "string \<times> string \<Rightarrow> string \<Rightarrow> bool" where
  "test_pattern pat n =
     (case pat of (P, S) \<Rightarrow>
        length P + length S < length n
        \<and> take (length P) n = P
        \<and> drop (length n - length S) n = S
        \<and> list_all is_word_char (take (length n - length P - length S) (drop (length P) n)))"

definition expectedPatternPairs :: "((string \<times> string) \<times> (string \<times> string)) list" where
  "expectedPatternPairs =
     [((''Create'', ''Input''), (''Update'', ''Input'')),
      ((''Create'', ''Request''), (''Update'', ''Request'')),
      ((''Create'', ''Response''), (''Update'', ''Response'')),
      (([], ''Id''), ([], ''Ref'')),
      (([], ''Id''), ([], ''Id'')),
      (([], ''Ref''), ([], ''Ref'')),
      (([], ''Score''), ([], ''Scores'')),
      ((''I'', ''Service''), (''I'', ''Repository''))]"

fun pattern_loop ::
  "((string \<times> string) \<times> (string \<times> string)) list \<Rightarrow> string \<Rightarrow> string \<Rightarrow> bool" where
  "pattern_loop [] n1 n2 = False"
| "pattern_loop ((pattern1, pattern2) # rest) n1 n2 =
     (if (test_pattern pattern1 n1 \<and> test_pattern pattern2 n2)
         \<or> (test_pattern pattern2 n1 \<and> test_pattern pattern1 n2)
      then True
      else pattern_loop rest n1 n2)"

text \<open>
  \<open>n.replace(/(Id|Ref|Input|Output|Request|Response|Type|Status|Score|Scores)$/, '')\<close>: the
  match is the leftmost position from which the rest of the name is one of the
  alternatives; the name is cut there.
\<close>

definition name_suffixes :: "string list" where
  "name_suffixes =
     [''Id'', ''Ref'', ''Input'', ''Output'', ''Request'', ''Response'', ''Type'', ''Status'',
      ''Score'', ''Scores'']"

definition strip_name_suffix :: "string \<Rightarrow> string" where
  "strip_name_suffix n =
     (case find (\<lambda>i. drop i n \<in> set name_suffixes) [0..<length n + 1] of
        Some i \<Rightarrow> take i n
      | None \<Rightarrow> n)"

definition isExpectedPair :: "string \<Rightarrow> string \<Rightarrow> bool" where
  "isExpectedPair n1 n2 =
     (if pattern_loop expectedPatternPairs n1 n2 then True
      else (let base1 = strip_name_suffix n1;
                base2 = strip_name_suffix n2 in
            if base1 = base2 then True else False))"

record TypeNameEntry =
  tn_name :: string
  tn_file :: string
  tn_line :: nat

definition allTypeNames_of :: "ParsedContract list \<Rightarrow> SharedPrimitives \<Rightarrow> TypeNameEntry list" where
  "allTypeNames_of contracts primitives =
     foldl (\<lambda>acc contract.
              foldl (\<lambda>acc t. acc @ [\<lparr> tn_name = td_name t, tn_file = pc_filePath contract,
                                       tn_line = td_line t \<rparr>])
                acc (pc_types contract))
       (foldl (\<lambda>acc (name, t). acc @ [\<lparr> tn_name = name, tn_file = prim_filePath primitives,
                                          tn_line = td_line t \<rparr>])
          [] (prim_types primitives))
       contracts"

text \<open>Decimal digits of a number, for \<open>${Math.round(ratio * 100)}\<close>.\<close>

fun show_nat :: "nat \<Rightarrow> string" where
  "show_nat n =
     (if n < 10 then [char_of (48 + n)]
      else show_nat (n div 10) @ [char_of (48 + n mod 10)])"

definition show_int :: "int \<Rightarrow> string" where
  "show_int k = (if k < 0 then ''-'' @ show_nat (nat (- k)) else show_nat (nat k))"

definition math_round :: "rat \<Rightarrow> int" where
  "math_round x = \<lfloor>x + 1 / 2\<rfloor>"

definition similar_message :: "string \<Rightarrow> string \<Rightarrow> rat \<Rightarrow> string" where
  "similar_message name1 name2 ratio =
     ''Similar names detected: '' @ [CHR 0x27] @ name1 @ [CHR 0x27] @ '' and ''
       @ [CHR 0x27] @ name2 @ [CHR 0x27] @ '' ('' @ show_int (math_round (ratio * 100))
       @ ''% similar)''"

definition similar_names_issue ::
  "string \<Rightarrow> string \<Rightarrow> rat \<Rightarrow> TypeNameEntry \<Rightarrow> TypeNameEntry \<Rightarrow> VerificationIssue" where
  "similar_names_issue name1 name2 ratio type1 type2 =
     \<lparr> vi_severity = Warning,
       vi_category = Naming,
       vi_message = similar_message name1 name2 ratio,
       vi_file = tn_file type1,
       vi_line = Some (tn_line type1),
       vi_suggestion = Some (''Consider standardizing to one name. Found in: '' @ tn_file type1
                      @ '' and '' @ tn_file type2) \<rparr>"

text \<open>
  The body of the loop over \<open>similar\<close>.  The two \<open>find\<close> calls of the source carry a non-null
  assertion; both names are names of \<open>allTypeNames\<close>, so the \<open>None\<close> branches are never
  taken (lemma \<open>similar_names_are_found\<close>).
\<close>

definition similar_issue_step ::
  "TypeNameEntry list \<Rightarrow> VerificationIssue list \<Rightarrow> string \<times> string \<times> rat
     \<Rightarrow> VerificationIssue list" where
  "similar_issue_step allTypeNames issues0 s =
     (case s of (name1, name2, ratio) \<Rightarrow>
        if isExpectedPair name1 name2 then issues0
        else (case find (\<lambda>t. tn_name t = name1) allTypeNames of
                None \<Rightarrow> issues0
              | Some type1 \<Rightarrow>
                  (case find (\<lambda>t. tn_name t = name2) allTypeNames of
                     None \<Rightarrow> issues0
                   | Some type2 \<Rightarrow>
                       issues0 @ [similar_names_issue name1 name2 ratio type1 type2])))"

definition endsWith :: "string \<Rightarrow> string \<Rightarrow> bool" where
  "endsWith s suf = (length suf \<le> length s \<and> drop (length s - length suf) s = suf)"

definition orphan_ref_issue :: "ParsedContract \<Rightarrow> TypeDefinition \<Rightarrow> string \<Rightarrow> VerificationIssue" where
  "orphan_ref_issue contract t entityName =
     \<lparr> vi_severity = Warning,
       vi_category = Naming,
       vi_message = ''Reference type '' @ [CHR 0x27] @ td_name t @ [CHR 0x27]
                      @ '' has no corresponding full entity '' @ [CHR 0x27] @ entityName
                      @ [CHR 0x27],
       vi_file = pc_filePath contract,
       vi_line = Some (td_line t),
       vi_suggestion = Some (''Consider defining '' @ [CHR 0x27] @ entityName @ [CHR 0x27]
                      @ '' or renaming if this is not a reference type'') \<rparr>"

text \<open>
  The body of the loops over the reference types; the state is the pair of \<open>issues\<close> and
  \<open>warnedRefTypes\<close>.  \<open>name.replace(/Ref$/, '')\<close> on a name that ends in \<open>Ref\<close> drops its last
  three characters.
\<close>

definition ref_step ::
  "TypeNameEntry list \<Rightarrow> SharedPrimitives \<Rightarrow> ParsedContract
     \<Rightarrow> VerificationIssue list \<times> string set \<Rightarrow> TypeDefinition
     \<Rightarrow> VerificationIssue list \<times> string set" where
  "ref_step allTypeNames primitives contract st t =
     (case st of (issues0, warnedRefTypes) \<Rightarrow>
        if endsWith (td_name t) ''Ref'' \<and> td_kind t = Interface
        then (if td_name t \<in> warnedRefTypes then st
              else (let entityName = take (length (td_name t) - 3) (td_name t);
                        hasFullEntity = list_ex (\<lambda>e. tn_name e = entityName) allTypeNames;
                        inPrimitives = jsmap_has (prim_types primitives) entityName in
                    if \<not> hasFullEntity \<and> \<not> inPrimitives
                    then (issues0 @ [orphan_ref_issue contract t entityName],
                          insert (td_name t) warnedRefTypes)
                    else st))
        else st)"

definition checkNamingConsistency ::
  "ParsedContract list \<Rightarrow> SharedPrimitives \<Rightarrow> VerificationIssue list" where
  "checkNamingConsistency contracts primitives =
     (let allTypeNames = allTypeNames_of contracts primitives;
          names = map tn_name allTypeNames;
          similar = findSimilarNames names (85 / 100);
          issues1 = foldl (similar_issue_step allTypeNames) [] similar
      in fst (foldl (\<lambda>st contract.
                       foldl (ref_step allTypeNames primitives contract) st (pc_types contract))
                (issues1, {}) contracts))"

section \<open>Cycle detection\<close>

text \<open>
  \<open>detectCycles\<close> (lines 177-211).  The graph is a JavaScript map from a node to the list of
  its neighbours; \<open>graph.get(node) || []\<close> is \<open>neighbors_of\<close>.  The sets \<open>visited\<close> and
  \<open>recStack\<close> and the list \<open>cycles\<close> are shared by all calls of the inner function \<open>dfs\<close>;
  they are the state that \<open>dfs\<close> takes and returns.  \<open>path\<close> is local to a call: every
  call receives a copy (\<open>[...path]\<close>, or the fresh \<open>[]\<close>) and appends its node to it.

  The recursion of \<open>dfs\<close> is on a fuel that bounds its depth: \<open>dfs 0\<close> is \<open>None\<close>, the
  function not having returned.  \<open>detectCycles\<close> starts with as much fuel as the graph has
  nodes, which always suffices (lemma \<open>detectCycles_total\<close>).
\<close>

type_synonym graph = "(string list) jsmap"

record DfsState =
  cycles :: "string list list"
  visited :: "string set"
  recStack :: "string set"

definition neighbors_of :: "graph \<Rightarrow> string \<Rightarrow> string list" where
  "neighbors_of g node = (case map_of g node of None \<Rightarrow> [] | Some ns \<Rightarrow> ns)"

fun indexOf :: "'a list \<Rightarrow> 'a \<Rightarrow> nat option" where
  "indexOf [] x = None"
| "indexOf (y # ys) x = (if y = x then Some 0 else map_option Suc (indexOf ys x))"

fun dfs :: "nat \<Rightarrow> graph \<Rightarrow> string \<Rightarrow> string list \<Rightarrow> DfsState \<Rightarrow> DfsState option"
and dfs_neighbors ::
  "nat \<Rightarrow> graph \<Rightarrow> string list \<Rightarrow> string list \<Rightarrow> DfsState \<Rightarrow> DfsState option" where
  "dfs 0 g node path st = None"
| "dfs (Suc n) g node path st =
     (case dfs_neighbors n g (path @ [node]) (neighbors_of g node)
             (st\<lparr> visited := insert node (visited st), recStack := insert node (recStack st) \<rparr>) of
        None \<Rightarrow> None
      | Some st' \<Rightarrow> Some (st'\<lparr> recStack := recStack st' - {node} \<rparr>))"
| "dfs_neighbors n g path [] st = Some st"
| "dfs_neighbors n g path (neighbor # rest) st =
     (if neighbor \<notin> visited st
      then (case dfs n g neighbor path st of
              None \<Rightarrow> None
            | Some st' \<Rightarrow> dfs_neighbors n g path rest st')
      else if neighbor \<in> recStack st
      then (case indexOf path neighbor of
              None \<Rightarrow> dfs_neighbors n g path rest st
            | Some cycleStart \<Rightarrow>
                dfs_neighbors n g path rest
                  (st\<lparr> cycles := cycles st @ [drop cycleStart path @ [neighbor]] \<rparr>))
      else dfs_neighbors n g path rest st)"

fun detect_loop :: "nat \<Rightarrow> graph \<Rightarrow> string list \<Rightarrow> DfsState \<Rightarrow> DfsState option" where
  "detect_loop n g [] st = Some st"
| "detect_loop n g (node # rest) st =
     (if node \<notin> visited st
      then (case dfs n g node [] st of
              None \<Rightarrow> None
            | Some st' \<Rightarrow> detect_loop n g rest st')
      else detect_loop n g rest st)"

definition graph_nodes :: "graph \<Rightarrow> string list" where
  "graph_nodes g = remdups (map fst g @ concat (map snd g))"

definition detectCycles :: "graph \<Rightarrow> string list list option" where
  "detectCycles g =
     map_option cycles
       (detect_loop (length (graph_nodes g)) g (map fst g)
          \<lparr> cycles = [], visited = {}, recStack = {} \<rparr>)"


section \<open>Circular dependencies\<close>

text \<open>
  \<open>checkCircularDependencies\<close> (lines 534-577).  \<open>path.basename\<close> belongs to the Node
  library and is a parameter, applied to the path and the optional extension.  A cycle is
  never empty; \<open>cycle[0]\<close> is its first element.
\<close>

definition add_dependency ::
  "(string \<Rightarrow> string option \<Rightarrow> string) \<Rightarrow> ParsedContract \<Rightarrow> ImportInfo \<Rightarrow> string list \<Rightarrow> ParsedContract
     \<Rightarrow> string list" where
  "add_dependency basename contract imp deps other =
     (if pc_filePath other = pc_filePath contract then deps
      else (let providesType = list_ex (\<lambda>t. td_name t = imp_name imp) (pc_types other) in
            if providesType
            then (let otherName = basename (pc_filePath other) None in
                  if otherName \<notin> set deps then deps @ [otherName] else deps)
            else deps))"

definition dependencies_of ::
  "(string \<Rightarrow> string option \<Rightarrow> string) \<Rightarrow> ParsedContract list \<Rightarrow> ParsedContract \<Rightarrow> string list" where
  "dependencies_of basename contracts contract =
     foldl (\<lambda>deps imp. foldl (add_dependency basename contract imp) deps contracts)
       [] (pc_imports contract)"

definition circular_issue :: "string list \<Rightarrow> VerificationIssue" where
  "circular_issue cycle =
     \<lparr> vi_severity = Error,
       vi_category = CircularDep,
       vi_message = ''Circular dependency detected: '' @ join '' -> '' cycle,
       vi_file = (case cycle of [] \<Rightarrow> [] | first # _ \<Rightarrow> first),
       vi_line = None,
       vi_suggestion = Some (''Refactor to break the circular dependency, possibly by ''
                      @ ''extracting shared types to primitives'') \<rparr>"

definition build_graph ::
  "(string \<Rightarrow> string option \<Rightarrow> string) \<Rightarrow> ParsedContract list \<Rightarrow> graph \<times> DependencyNode list" where
  "build_graph basename contracts =
     foldl (\<lambda>(graph, nodes) contract.
              (let deps = dependencies_of basename contracts contract;
                   contractName = basename (pc_filePath contract) None in
               (jsmap_set graph contractName deps,
                nodes @ [\<lparr> dn_name = contractName, dependencies = deps \<rparr>])))
       ([], []) contracts"

definition checkCircularDependencies ::
  "(string \<Rightarrow> string option \<Rightarrow> string) \<Rightarrow> ParsedContract list
     \<Rightarrow> (DependencyNode list \<times> VerificationIssue list) option" where
  "checkCircularDependencies basename contracts =
     (case build_graph basename contracts of (graph, nodes) \<Rightarrow>
        (case detectCycles graph of
           None \<Rightarrow> None
         | Some cycles' \<Rightarrow>
             Some (nodes, foldl (\<lambda>issues cycle. issues @ [circular_issue cycle]) [] cycles')))"

section \<open>Regular expressions\<close>

text \<open>
  The extractor works with JavaScript regular expressions.  An expression is a value of
  \<open>rx\<close>: the empty expression, a character, a character class (a predicate), sequence,
  alternative, the greedy and the lazy star, a numbered capturing group, and the anchors
  \<open>^\<close> and \<open>$\<close> with the multiline flag.  \<open>ms r s (i, caps)\<close> lists every way to match \<open>r\<close>
  in \<open>s\<close> from index \<open>i\<close>, as the index after the match and the captures, in the order in
  which a backtracking matcher tries them: the head of the list is the match it reports.
  An iteration of a star must consume input, as in JavaScript.  Characters are bytes:
  \<open>\s\<close> and \<open>\w\<close> are their ASCII classes.
\<close>

datatype rx =
    Eps
  | Chr char
  | Cls "char \<Rightarrow> bool"
  | Seq rx rx
  | Alt rx rx
  | Star rx
  | LazyStar rx
  | Grp nat rx
  | Bol bool
  | Eol bool

type_synonym captures = "(nat \<times> string) list"
type_synonym rx_state = "nat \<times> captures"

definition is_line_terminator :: "char \<Rightarrow> bool" where
  "is_line_terminator c = (c = CHR 0x0A \<or> c = CHR 0x0D)"

function ms :: "rx \<Rightarrow> string \<Rightarrow> rx_state \<Rightarrow> rx_state list" where
  "ms Eps s st = [st]"
| "ms (Chr c) s st =
     (if fst st < length s \<and> s ! fst st = c then [(fst st + 1, snd st)] else [])"
| "ms (Cls p) s st =
     (if fst st < length s \<and> p (s ! fst st) then [(fst st + 1, snd st)] else [])"
| "ms (Seq a b) s st = concat (map (ms b s) (ms a s st))"
| "ms (Alt a b) s st = ms a s st @ ms b s st"
| "ms (Star a) s st =
     concat (map (\<lambda>st'. if fst st < fst st' \<and> fst st' \<le> length s then ms (Star a) s st' else [])
               (ms a s st))
     @ [st]"
| "ms (LazyStar a) s st =
     st # concat (map (\<lambda>st'. if fst st < fst st' \<and> fst st' \<le> length s
                              then ms (LazyStar a) s st' else [])
                    (ms a s st))"
| "ms (Grp n a) s st =
     map (\<lambda>st'. (fst st', (n, take (fst st' - fst st) (drop (fst st) s)) # snd st')) (ms a s st)"
| "ms (Bol multiline) s st =
     (if fst st = 0 \<or> (multiline \<and> fst st \<le> length s \<and> is_line_terminator (s ! (fst st - 1)))
      then [st] else [])"
| "ms (Eol multiline) s st =
     (if fst st = length s \<or> (multiline \<and> fst st < length s \<and> is_line_terminator (s ! fst st))
      then [st] else [])"
  by pat_completeness auto
termination
  by (relation "measures [\<lambda>(r, s, st). size r, \<lambda>(r, s, st). length s - fst st]") auto

fun str :: "string \<Rightarrow> rx" where
  "str [] = Eps"
| "str [c] = Chr c"
| "str (c # cs) = Seq (Chr c) (str cs)"

fun seqs :: "rx list \<Rightarrow> rx" where
  "seqs [] = Eps"
| "seqs [r] = r"
| "seqs (r # rs) = Seq r (seqs rs)"

fun alts :: "rx list \<Rightarrow> rx" where
  "alts [] = Cls (\<lambda>c. False)"
| "alts [r] = r"
| "alts (r # rs) = Alt r (alts rs)"

definition Plus :: "rx \<Rightarrow> rx" where "Plus r = Seq r (Star r)"
definition LazyPlus :: "rx \<Rightarrow> rx" where "LazyPlus r = Seq r (LazyStar r)"
definition Opt :: "rx \<Rightarrow> rx" where "Opt r = Alt r Eps"
definition NoneOf :: "string \<Rightarrow> rx" where "NoneOf cs = Cls (\<lambda>c. c \<notin> set cs)"
definition AnyOf :: "string \<Rightarrow> rx" where "AnyOf cs = Cls (\<lambda>c. c \<in> set cs)"

fun search :: "rx \<Rightarrow> string \<Rightarrow> nat list \<Rightarrow> (nat \<times> rx_state) option" where
  "search r s [] = None"
| "search r s (i # is) =
     (case ms r s (i, []) of
        st # _ \<Rightarrow> Some (i, st)
      | [] \<Rightarrow> search r s is)"

record rx_match =
  m_index :: nat
  m_end :: nat
  m_caps :: captures

definition exec :: "rx \<Rightarrow> string \<Rightarrow> nat \<Rightarrow> rx_match option" where
  "exec r s lastIndex =
     (case search r s [lastIndex..<length s + 1] of
        None \<Rightarrow> None
      | Some (i, st) \<Rightarrow> Some \<lparr> m_index = i, m_end = fst st, m_caps = snd st \<rparr>)"

definition cap :: "rx_match \<Rightarrow> nat \<Rightarrow> string option" where
  "cap m n = map_of (m_caps m) n"

definition cap_str :: "rx_match \<Rightarrow> nat \<Rightarrow> string" where
  "cap_str m n = (case cap m n of None \<Rightarrow> [] | Some t \<Rightarrow> t)"

definition matched :: "string \<Rightarrow> rx_match \<Rightarrow> string" where
  "matched s m = take (m_end m - m_index m) (drop (m_index m) s)"

function exec_all :: "rx \<Rightarrow> string \<Rightarrow> nat \<Rightarrow> rx_match list" where
  "exec_all r s lastIndex =
     (case exec r s lastIndex of
        None \<Rightarrow> []
      | Some m \<Rightarrow>
          m # (if lastIndex < m_end m \<and> m_end m \<le> length s then exec_all r s (m_end m) else []))"
  by pat_completeness auto
termination
  by (relation "measure (\<lambda>(r, s, lastIndex). length s - lastIndex)") auto

definition test :: "rx \<Rightarrow> string \<Rightarrow> bool" where
  "test r s = (exec r s 0 \<noteq> None)"

definition replace_first :: "rx \<Rightarrow> string \<Rightarrow> string \<Rightarrow> string" where
  "replace_first r repl s =
     (case exec r s 0 of
        None \<Rightarrow> s
      | Some m \<Rightarrow> take (m_index m) s @ repl @ drop (m_end m) s)"

function replace_from :: "rx \<Rightarrow> string \<Rightarrow> string \<Rightarrow> nat \<Rightarrow> string" where
  "replace_from r repl s pos =
     (case exec r s pos of
        None \<Rightarrow> drop pos s
      | Some m \<Rightarrow>
          take (m_index m - pos) (drop pos s) @ repl
          @ (if pos < m_end m \<and> m_end m \<le> length s then replace_from r repl s (m_end m)
             else drop (m_end m) s))"
  by pat_completeness auto
termination
  by (relation "measure (\<lambda>(r, repl, s, pos). length s - pos)") auto

definition replace_all :: "rx \<Rightarrow> string \<Rightarrow> string \<Rightarrow> string" where
  "replace_all r repl s = replace_from r repl s 0"

fun split_on :: "char \<Rightarrow> string \<Rightarrow> string list" where
  "split_on c [] = [[]]"
| "split_on c (x # xs) =
     (if x = c then [] # split_on c xs
      else (case split_on c xs of
              [] \<Rightarrow> [[x]]
            | y # ys \<Rightarrow> (x # y) # ys))"

definition trim :: "string \<Rightarrow> string" where
  "trim s = rev (dropWhile is_space (rev (dropWhile is_space s)))"

definition count_newlines :: "string \<Rightarrow> nat" where
  "count_newlines s = length (filter (\<lambda>c. c = CHR 0x0A) s)"

definition sp :: rx where "sp = Cls is_space"
definition word :: rx where "word = Cls is_word_char"

section \<open>Declaration extractor\<close>

text \<open>
  \<open>extractImports\<close> (lines 283-317), \<open>extractTypes\<close> (319-389), \<open>extractProperties\<close>
  (391-405), \<open>extractServiceMethods\<close> (407-430), \<open>extractParameters\<close> (432-448),
  \<open>extractApiRoute\<close> (450-459) and \<open>extractContractName\<close> (273-281), each with its regular
  expressions.  A loop \<open>while ((match = re.exec(code)) !== null)\<close> runs over \<open>exec_all\<close>.
  None of the expressions with the flag \<open>g\<close> can match the empty string, so \<open>lastIndex\<close>
  grows with every match; the recursion of \<open>exec_all\<close> and of \<open>replace_from\<close> ends where
  it would not.
\<close>

definition importRegex :: rx where
  "importRegex =
     seqs [str ''import'', Star sp, Chr CHR ''{'', Grp 1 (Plus (NoneOf ''}'')), Chr CHR ''}'',
           Star sp, str ''from'', Star sp, AnyOf [CHR 0x27, CHR 0x22],
           Grp 2 (Plus (NoneOf [CHR 0x27, CHR 0x22])), AnyOf [CHR 0x27, CHR 0x22]]"

definition lineCommentRegex :: rx where
  "lineCommentRegex = seqs [str ''//'', Star (NoneOf [CHR 0x0A])]"

definition blockCommentRegex :: rx where
  "blockCommentRegex = seqs [str ''/*'', LazyStar (Cls (\<lambda>c. True)), str ''*/'']"

definition spacesRegex :: rx where
  "spacesRegex = Plus sp"

definition is_ident_start :: "char \<Rightarrow> bool" where
  "is_ident_start c =
     ((CHR ''a'' \<le> c \<and> c \<le> CHR ''z'') \<or> (CHR ''A'' \<le> c \<and> c \<le> CHR ''Z'')
      \<or> c = CHR ''_'' \<or> c = CHR ''$'')"

definition is_ident_char :: "char \<Rightarrow> bool" where
  "is_ident_char c = (is_ident_start c \<or> (CHR ''0'' \<le> c \<and> c \<le> CHR ''9''))"

definition identPrefixRegex :: rx where
  "identPrefixRegex = seqs [Bol False, Cls is_ident_start, Star (Cls is_ident_char)]"

definition identRegex :: rx where
  "identRegex = seqs [Bol False, Cls is_ident_start, Star (Cls is_ident_char), Eol False]"

definition asAliasRegex :: rx where
  "asAliasRegex = seqs [Plus sp, str ''as'', Plus sp, Plus word]"

definition imports_of_match :: "string \<Rightarrow> nat \<Rightarrow> rx_match \<Rightarrow> ImportInfo list" where
  "imports_of_match code startLine m =
     (let source = cap_str m 2;
          beforeMatch = take (m_index m) code;
          lineOffset = count_newlines beforeMatch;
          importContent = replace_all blockCommentRegex []
                            (replace_all lineCommentRegex [] (cap_str m 1));
          importedItems =
            filter (test identPrefixRegex)
              (map (replace_all spacesRegex '' '')
                 (filter (\<lambda>s. s \<noteq> []) (map trim (split_on CHR '','' importContent))))
      in concat (map (\<lambda>name.
           (let cleanName = trim (replace_first asAliasRegex [] name) in
            if cleanName \<noteq> [] \<and> test identRegex cleanName
            then [\<lparr> imp_name = cleanName, imp_source = source,
                    imp_line = startLine + lineOffset \<rparr>]
            else [])) importedItems))"

definition extractImports :: "string \<Rightarrow> nat \<Rightarrow> ImportInfo list" where
  "extractImports code startLine =
     concat (map (imports_of_match code startLine) (exec_all importRegex code 0))"

definition propRegex :: rx where
  "propRegex =
     seqs [Grp 1 (Plus word), Opt (Grp 2 (Chr CHR ''?'')), Chr CHR '':'', Star sp,
           Grp 3 (Plus (NoneOf '';'')), Chr CHR '';'']"

definition extractProperties :: "string \<Rightarrow> PropertyInfo list" where
  "extractProperties body =
     map (\<lambda>m. \<lparr> prop_name = cap_str m 1, prop_type = trim (cap_str m 3),
                 prop_optional = (cap m 2 = Some ''?'') \<rparr>)
       (exec_all propRegex body 0)"

definition genericsRx :: rx where
  "genericsRx = Opt (seqs [Chr CHR ''<'', Plus (NoneOf ''>''), Chr CHR ''>''])"

definition interfaceRegex :: rx where
  "interfaceRegex =
     seqs [str ''export'', Plus sp, str ''interface'', Plus sp, Grp 1 (Plus word), genericsRx,
           Opt (seqs [Plus sp, str ''extends'', Plus sp, Plus (NoneOf ''{'')]),
           Star sp, Chr CHR ''{'',
           Grp 2 (seqs [Star (NoneOf ''}''),
                        Star (seqs [Chr CHR ''{'', Star (NoneOf ''}''), Chr CHR ''}'',
                                    Star (NoneOf ''}'')])]),
           Chr CHR ''}'']"

definition typeRegex :: rx where
  "typeRegex =
     seqs [str ''export'', Plus sp, str ''type'', Plus sp, Grp 1 (Plus word), genericsRx,
           Star sp, Chr CHR ''='', Star sp, Grp 2 (Plus (NoneOf '';'')), Chr CHR '';'']"

definition enumRegex :: rx where
  "enumRegex =
     seqs [str ''export'', Plus sp, str ''enum'', Plus sp, Grp 1 (Plus word), Star sp,
           Chr CHR ''{'', Grp 2 (Plus (NoneOf ''}'')), Chr CHR ''}'']"

definition constRegex :: rx where
  "constRegex =
     seqs [str ''export'', Plus sp, str ''const'', Plus sp, Grp 1 (Plus word), Star sp,
           Chr CHR ''='', Star sp, Chr CHR ''{'']"

definition enumValues_of :: "string \<Rightarrow> PropertyInfo list" where
  "enumValues_of members =
     filter (\<lambda>v. prop_name v \<noteq> [])
       (map (\<lambda>v. (let parts = split_on CHR ''='' (trim v) in
                   \<lparr> prop_name = trim (case parts of [] \<Rightarrow> [] | p # _ \<Rightarrow> p),
                     prop_type = ''enum-value'', prop_optional = False \<rparr>))
          (split_on CHR '','' members))"

definition type_of_match ::
  "string \<Rightarrow> nat \<Rightarrow> kind \<Rightarrow> (rx_match \<Rightarrow> PropertyInfo list) \<Rightarrow> rx_match \<Rightarrow> TypeDefinition" where
  "type_of_match code startLine k props m =
     (let beforeMatch = take (m_index m) code;
          lineOffset = count_newlines beforeMatch in
      \<lparr> td_name = cap_str m 1, td_kind = k, td_properties = props m,
        td_rawContent = matched code m, td_line = startLine + lineOffset \<rparr>)"

definition extractTypes :: "string \<Rightarrow> nat \<Rightarrow> TypeDefinition list" where
  "extractTypes code startLine =
     map (type_of_match code startLine Interface (\<lambda>m. extractProperties (cap_str m 2)))
       (exec_all interfaceRegex code 0)
     @ map (type_of_match code startLine TypeAlias (\<lambda>m. []))
         (exec_all typeRegex code 0)
     @ map (type_of_match code startLine Enum (\<lambda>m. enumValues_of (cap_str m 2)))
         (exec_all enumRegex code 0)
     @ map (type_of_match code startLine Const (\<lambda>m. []))
         (exec_all constRegex code 0)"

definition serviceRegex :: rx where
  "serviceRegex =
     seqs [str ''export'', Plus sp, str ''interface'', Plus sp, Chr CHR ''I'', Plus word,
           str ''Service'', Star sp, Chr CHR ''{'', Grp 1 (LazyStar (Cls (\<lambda>c. True))),
           Chr CHR 0x0A, Chr CHR ''}'']"

definition methodRegex :: rx where
  "methodRegex =
     seqs [Grp 1 (Plus word), Star sp, Chr CHR ''('', Grp 2 (Star (NoneOf '')'')), Chr CHR '')'',
           Star sp, Chr CHR '':'', Star sp, Grp 3 (Plus (NoneOf '';'')), Chr CHR '';'']"

definition paramRegex :: rx where
  "paramRegex =
     seqs [Grp 1 (Plus word), Opt (Grp 2 (Chr CHR ''?'')), Chr CHR '':'', Star sp,
           Grp 3 (Plus (NoneOf '',''))]"

definition extractParameters :: "string \<Rightarrow> ParameterInfo list" where
  "extractParameters paramsStr =
     (if trim paramsStr = [] then []
      else map (\<lambda>m. \<lparr> par_name = cap_str m 1, par_type = trim (cap_str m 3),
                       par_optional = (cap m 2 = Some ''?'') \<rparr>)
             (exec_all paramRegex paramsStr 0))"

definition extractServiceMethods :: "string \<Rightarrow> nat \<Rightarrow> ServiceMethod list" where
  "extractServiceMethods code startLine =
     (case exec serviceRegex code 0 of
        None \<Rightarrow> []
      | Some interfaceMatch \<Rightarrow>
          (let body = cap_str interfaceMatch 1 in
           map (\<lambda>m. (let beforeMatch = take (m_index m) body;
                          lineOffset = count_newlines beforeMatch in
                      \<lparr> sm_name = cap_str m 1, sm_parameters = extractParameters (cap_str m 2),
                        sm_returnType = trim (cap_str m 3),
                        sm_line = startLine + lineOffset \<rparr>))
             (exec_all methodRegex body 0)))"

definition routeRegex :: rx where
  "routeRegex =
     seqs [Bol False, str ''###'', Plus sp,
           Grp 1 (alts [str ''GET'', str ''POST'', str ''PUT'', str ''PATCH'', str ''DELETE'']),
           Plus sp, Grp 2 (Plus (Cls (\<lambda>c. \<not> is_space c)))]"

definition extractApiRoute :: "string \<Rightarrow> nat \<Rightarrow> ApiRoute option" where
  "extractApiRoute line' lineNum =
     (case exec routeRegex line' 0 of
        None \<Rightarrow> None
      | Some routeMatch \<Rightarrow>
          Some \<lparr> ar_method = cap_str routeMatch 1, ar_path = cap_str routeMatch 2,
                 ar_requestType = None, ar_responseType = None, ar_line = lineNum \<rparr>)"

definition dot :: rx where
  "dot = Cls (\<lambda>c. \<not> is_line_terminator c)"

definition titleRegex :: rx where
  "titleRegex =
     seqs [Bol True, Chr CHR ''#'', Plus sp, Grp 1 (LazyPlus dot),
           Opt (seqs [Plus sp, str ''Contract'']), Eol True]"

definition domainSuffixRegex :: rx where
  "domainSuffixRegex = seqs [Plus sp, str ''Domain'', Eol False]"

definition contractSuffixRegex :: rx where
  "contractSuffixRegex =
     seqs (map (\<lambda>c. Cls (\<lambda>x. toLowerCase_char x = toLowerCase_char c)) ''-CONTRACT'' @ [Eol False])"

definition extractContractName :: "(string \<Rightarrow> string option \<Rightarrow> string) \<Rightarrow> string \<Rightarrow> string \<Rightarrow> string" where
  "extractContractName basename content filePath' =
     (case exec titleRegex content 0 of
        Some titleMatch \<Rightarrow> trim (replace_first domainSuffixRegex [] (cap_str titleMatch 1))
      | None \<Rightarrow>
          (let base = basename filePath' (Some ''.md'') in
           replace_all (Chr CHR ''-'') '' '' (replace_first contractSuffixRegex [] base)))"

section \<open>Parsing documents\<close>

text \<open>
  \<open>parseContract\<close> (lines 217-271) and \<open>parseSharedPrimitives\<close> (465-482).  The file system
  is a partial map from paths to contents; \<open>readFileSync\<close> on a missing file throws, which
  is the error value \<open>FileNotFound\<close>.  \<open>parseContent\<close> is \<open>parseContract\<close> after the file is
  read; the state of its loop over the lines is \<open>ParseState\<close>.
\<close>

datatype error = FileNotFound string

type_synonym file_system = "string \<Rightarrow> string option"

definition readFileSync :: "file_system \<Rightarrow> string \<Rightarrow> error + string" where
  "readFileSync fs path = (case fs path of None \<Rightarrow> Inl (FileNotFound path) | Some content \<Rightarrow> Inr content)"

record ParseState =
  ps_inCodeBlock :: bool
  ps_codeBlockContent :: string
  ps_codeBlockStartLine :: nat
  ps_contract :: ParsedContract

definition parse_line :: "ParseState \<Rightarrow> nat \<times> string \<Rightarrow> ParseState" where
  "parse_line st il =
     (case il of (i, line') \<Rightarrow>
        (let lineNum = i + 1 in
         if startsWith (trim line') ''```typescript'' \<or> startsWith (trim line') ''```ts''
         then st\<lparr> ps_inCodeBlock := True, ps_codeBlockContent := [], ps_codeBlockStartLine := lineNum \<rparr>
         else if trim line' = ''```'' \<and> ps_inCodeBlock st
         then (let c = ps_contract st;
                   imports' = extractImports (ps_codeBlockContent st) (ps_codeBlockStartLine st);
                   types' = extractTypes (ps_codeBlockContent st) (ps_codeBlockStartLine st);
                   methods = extractServiceMethods (ps_codeBlockContent st) (ps_codeBlockStartLine st)
               in st\<lparr> ps_inCodeBlock := False,
                       ps_contract := c\<lparr> pc_imports := pc_imports c @ imports',
                                       pc_types := pc_types c @ types',
                                       pc_serviceMethods := pc_serviceMethods c @ methods \<rparr> \<rparr>)
         else (let st' = (if ps_inCodeBlock st
                          then st\<lparr> ps_codeBlockContent := ps_codeBlockContent st @ line' @ [CHR 0x0A] \<rparr>
                          else st)
               in (case extractApiRoute line' lineNum of
                     None \<Rightarrow> st'
                   | Some apiRoute \<Rightarrow>
                       st'\<lparr> ps_contract := (ps_contract st')\<lparr> pc_apiRoutes :=
                                              pc_apiRoutes (ps_contract st') @ [apiRoute] \<rparr> \<rparr>))))"

definition parseContent :: "(string \<Rightarrow> string option \<Rightarrow> string) \<Rightarrow> string \<Rightarrow> string \<Rightarrow> ParsedContract" where
  "parseContent basename filePath' content =
     (let lines = split_on CHR 0x0A content;
          contract0 = \<lparr> pc_filePath = filePath',
                        pc_name = extractContractName basename content filePath',
                        pc_imports = [], pc_types = [], pc_serviceMethods = [],
                        pc_apiRoutes = [] \<rparr>
      in ps_contract (foldl parse_line
                     \<lparr> ps_inCodeBlock = False, ps_codeBlockContent = [], ps_codeBlockStartLine = 0,
                       ps_contract = contract0 \<rparr>
                     (zip [0..<length lines] lines)))"

definition parseContract ::
  "file_system \<Rightarrow> (string \<Rightarrow> string option \<Rightarrow> string) \<Rightarrow> string \<Rightarrow> error + ParsedContract" where
  "parseContract fs basename filePath' =
     (case readFileSync fs filePath' of
        Inl e \<Rightarrow> Inl e
      | Inr content \<Rightarrow> Inr (parseContent basename filePath' content))"

definition types_map :: "TypeDefinition list \<Rightarrow> TypeDefinition jsmap" where
  "types_map ts = foldl (\<lambda>types' t. jsmap_set types' (td_name t) t) [] ts"

definition parseSharedPrimitives ::
  "file_system \<Rightarrow> (string \<Rightarrow> string option \<Rightarrow> string) \<Rightarrow> string \<Rightarrow> error + SharedPrimitives" where
  "parseSharedPrimitives fs basename filePath' =
     (case readFileSync fs filePath' of
        Inl e \<Rightarrow> Inl e
      | Inr content \<Rightarrow>
          (if endsWith filePath' ''.md''
           then (case parseContract fs basename filePath' of
                   Inl e \<Rightarrow> Inl e
                 | Inr c \<Rightarrow> Inr \<lparr> prim_types = types_map (pc_types c),
                                  prim_filePath = filePath' \<rparr>)
           else Inr \<lparr> prim_types = types_map (extractTypes content 1),
                      prim_filePath = filePath' \<rparr>))"

section \<open>The verification run\<close>

text \<open>
  \<open>verifyContracts\<close> (lines 919-942).  The result is \<open>None\<close> when the run does not return
  (the fuel of the cycle detection), \<open>Some (Inl e)\<close> when reading a file throws, and
  \<open>Some (Inr report)\<close> otherwise.
\<close>

record VerifyContractsOptions =
  primitivesPath :: string
  contractPaths :: "string list"
  verbose :: "bool option"

fun parseContracts ::
  "file_system \<Rightarrow> (string \<Rightarrow> string option \<Rightarrow> string) \<Rightarrow> string list
     \<Rightarrow> error + ParsedContract list" where
  "parseContracts fs basename [] = Inr []"
| "parseContracts fs basename (contractPath # rest) =
     (case parseContract fs basename contractPath of
        Inl e \<Rightarrow> Inl e
      | Inr c \<Rightarrow>
          (case parseContracts fs basename rest of
             Inl e \<Rightarrow> Inl e
           | Inr cs \<Rightarrow> Inr (c # cs)))"

definition verifyContracts ::
  "file_system \<Rightarrow> (string \<Rightarrow> string option \<Rightarrow> string) \<Rightarrow> nat \<Rightarrow> VerifyContractsOptions
     \<Rightarrow> (error + VerificationReport) option" where
  "verifyContracts fs basename now options =
     (case parseSharedPrimitives fs basename (primitivesPath options) of
        Inl e \<Rightarrow> Some (Inl e)
      | Inr primitives \<Rightarrow>
          (case parseContracts fs basename (contractPaths options) of
             Inl e \<Rightarrow> Some (Inl e)
           | Inr contracts \<Rightarrow>
               (case checkCircularDependencies basename contracts of
                  None \<Rightarrow> None
                | Some (graph, circularIssues) \<Rightarrow>
                    Some (Inr (generateReport now primitives contracts
                      (checkImportResolution contracts primitives
                       @ circularIssues
                       @ checkNamingConsistency contracts primitives
                       @ checkTypeShapeCompatibility contracts primitives)
                      graph)))))"

section \<open>Notions used to state the properties\<close>

subsection \<open>Edit distance\<close>

text \<open>
  The recurrence that the matrix of \<open>levenshteinDistance\<close> tabulates, the distance of two
  prefixes, the matrix once the rows below \<open>i0\<close> are filled, and the matrix while row
  \<open>i\<close> is filled up to column \<open>j\<close>.
\<close>

fun edit_rec :: "string \<Rightarrow> string \<Rightarrow> nat" where
  "edit_rec [] ys = length ys"
| "edit_rec (x # xs) [] = length (x # xs)"
| "edit_rec (x # xs) (y # ys) =
     (if x = y then edit_rec xs ys
      else min (edit_rec xs ys + 1) (min (edit_rec (x # xs) ys + 1) (edit_rec xs (y # ys) + 1)))"

definition prefix_dist :: "string \<Rightarrow> string \<Rightarrow> nat \<Rightarrow> nat \<Rightarrow> nat" where
  "prefix_dist a b i j = edit_rec (rev (take i b)) (rev (take j a))"

definition rows_done :: "string \<Rightarrow> string \<Rightarrow> nat \<Rightarrow> nat list list" where
  "rows_done a b i0 =
     map (\<lambda>i. if i < i0 then map (prefix_dist a b i) [0..<length a + 1] else [i])
       [0..<length b + 1]"

definition row_partial :: "string \<Rightarrow> string \<Rightarrow> nat \<Rightarrow> nat \<Rightarrow> nat list list" where
  "row_partial a b i j = (rows_done a b i)[i := map (prefix_dist a b i) [0..<j]]"

subsection \<open>Similar names\<close>

text \<open>
  The pairs that the two nested index loops of \<open>findSimilarNames\<close> visit, in their order;
  the loop body as a function of the two names; the test that makes a pair a candidate,
  and the triple pushed for it.
\<close>

fun pairs_of :: "'a list \<Rightarrow> ('a \<times> 'a) list" where
  "pairs_of [] = []"
| "pairs_of (x # xs) = map (Pair x) xs @ pairs_of xs"

definition name_ratio :: "string \<times> string \<Rightarrow> rat" where
  "name_ratio p = similarityRatio (toLowerCase (fst p)) (toLowerCase (snd p))"

definition candidate :: "rat \<Rightarrow> string \<times> string \<Rightarrow> bool" where
  "candidate threshold p = (name_ratio p \<ge> threshold \<and> name_ratio p < 1)"

definition triple_of :: "string \<times> string \<Rightarrow> string \<times> string \<times> rat" where
  "triple_of p = (fst p, snd p, name_ratio p)"

definition pair_step :: "rat \<Rightarrow> similar_state \<Rightarrow> string \<times> string \<Rightarrow> similar_state" where
  "pair_step threshold st p =
     (if fst p = snd p then st
      else if pairKey_of (fst p) (snd p) \<in> snd st then st
      else if candidate threshold p
      then (fst st @ [triple_of p], insert (pairKey_of (fst p) (snd p)) (snd st))
      else st)"

definition key_of :: "string \<times> string \<Rightarrow> string" where
  "key_of p = pairKey_of (fst p) (snd p)"

text \<open>
  An issue is the similar-names warning of the unordered pair of \<open>a\<close> and \<open>b\<close> when it is a
  naming warning whose message is the similar-names message of \<open>a\<close> and \<open>b\<close> in either order,
  whatever the percentage.
\<close>

definition is_similar_warning_for :: "string \<Rightarrow> string \<Rightarrow> VerificationIssue \<Rightarrow> bool" where
  "is_similar_warning_for a b i =
     (vi_severity i = Warning \<and> vi_category i = Naming
      \<and> (\<exists>r. vi_message i = similar_message a b r \<or> vi_message i = similar_message b a r))"

text \<open>A name is an identifier when it consists of word characters, as \<open>\w+\<close> matches them.\<close>

definition is_identifier :: "string \<Rightarrow> bool" where
  "is_identifier n = list_all is_word_char n"

subsection \<open>Import resolution\<close>

text \<open>The names declared by the shared vocabulary or by any contract.\<close>

definition declared_names :: "ParsedContract list \<Rightarrow> SharedPrimitives \<Rightarrow> string set" where
  "declared_names contracts primitives =
     fst ` set (prim_types primitives) \<union> (\<Union>c \<in> set contracts. td_name ` set (pc_types c))"

text \<open>
  The sources that \<open>checkImportResolution\<close> skips: a listed library, any source that begins
  with \<open>@\<close>, and a source that begins with a dot and does not contain \<open>shared\<close>.
\<close>

definition exempt_source :: "string \<Rightarrow> bool" where
  "exempt_source src =
     (src \<in> set externalLibraries \<or> startsWith src ''@''
      \<or> (startsWith src ''.'' \<and> \<not> includes_str src ''shared''))"

text \<open>A contract that imports an undeclared name from a scoped package that is not listed.\<close>

definition scoped_import :: ImportInfo where
  "scoped_import = \<lparr> imp_name = ''Foo'', imp_source = ''@acme/types'', imp_line = 3 \<rparr>"

definition scoped_contract :: ParsedContract where
  "scoped_contract =
     \<lparr> pc_filePath = ''A-CONTRACT.md'', pc_name = ''A'', pc_imports = [scoped_import],
       pc_types = [], pc_serviceMethods = [], pc_apiRoutes = [] \<rparr>"

definition no_primitives :: SharedPrimitives where
  "no_primitives = \<lparr> prim_types = [], prim_filePath = ''shared.types.ts'' \<rparr>"

subsection \<open>Type shape compatibility\<close>

text \<open>
  The step of the loop that files one declaration of a contract under its name, the array
  stored under a name, and the map after the loop over the shared vocabulary.
\<close>

definition push_definition ::
  "string \<Rightarrow> (definition_entry list) jsmap \<Rightarrow> TypeDefinition
     \<Rightarrow> (definition_entry list) jsmap" where
  "push_definition f m t =
     (let m' = (if \<not> jsmap_has m (td_name t) then jsmap_set m (td_name t) [] else m) in
      (case map_of m' (td_name t) of
         Some ds \<Rightarrow> jsmap_set m' (td_name t) (ds @ [(t, f)])
       | None \<Rightarrow> m'))"

definition entries_of :: "(definition_entry list) jsmap \<Rightarrow> string \<Rightarrow> definition_entry list" where
  "entries_of m k = (case map_of m k of None \<Rightarrow> [] | Some ds \<Rightarrow> ds)"

definition primitive_entries :: "SharedPrimitives \<Rightarrow> (definition_entry list) jsmap" where
  "primitive_entries p =
     foldl (\<lambda>m (name, t). jsmap_set m name [(t, prim_filePath p)]) [] (prim_types p)"

text \<open>
  All declarations of a name with their files, in the order in which \<open>typesByName\<close> holds
  them: the shared vocabulary's first, then those of the contracts in the order of the
  contracts.  The first structured record among them is the baseline.
\<close>

definition contract_definitions :: "ParsedContract list \<Rightarrow> string \<Rightarrow> definition_entry list" where
  "contract_definitions contracts name =
     concat (map (\<lambda>c. map (\<lambda>t. (t, pc_filePath c)) (filter (\<lambda>t. td_name t = name) (pc_types c)))
               contracts)"

definition definitions_of ::
  "ParsedContract list \<Rightarrow> SharedPrimitives \<Rightarrow> string \<Rightarrow> definition_entry list" where
  "definitions_of contracts p name =
     (case map_of (prim_types p) name of
        None \<Rightarrow> []
      | Some t \<Rightarrow> [(t, prim_filePath p)])
     @ contract_definitions contracts name"

text \<open>The issues that one entry of the baseline's, and of the current, property map adds.\<close>

definition missing_issues ::
  "string \<Rightarrow> definition_entry \<Rightarrow> definition_entry \<Rightarrow> string \<times> PropertyInfo
     \<Rightarrow> VerificationIssue list" where
  "missing_issues name baseline current e =
     (if \<not> jsmap_has (props_map (fst current)) (fst e)
      then [missing_property_issue name (fst e) (snd e) baseline current] else [])"

definition drift_issues ::
  "string \<Rightarrow> definition_entry \<Rightarrow> definition_entry \<Rightarrow> string \<times> PropertyInfo
     \<Rightarrow> VerificationIssue list" where
  "drift_issues name baseline current e =
     (case map_of (props_map (fst baseline)) (fst e) of
        None \<Rightarrow> []
      | Some baseProp \<Rightarrow>
          (if prop_type baseProp \<noteq> prop_type (snd e)
                 \<and> \<not> areTypesCompatible (prop_type baseProp) (prop_type (snd e))
           then [type_mismatch_issue name (fst e) baseProp (snd e) baseline current]
           else [])
          @ (if prop_optional baseProp \<noteq> prop_optional (snd e)
             then [optionality_issue name (fst e) baseProp (snd e) baseline current]
             else []))"

text \<open>
  An issue \<open>i\<close> of the comparison of \<open>current\<close> with \<open>baseline\<close> concerns a property \<open>g\<close> of the
  baseline: \<open>g\<close> is missing from \<open>current\<close>, or \<open>g\<close> is a property of both and the two
  declarations give it incompatible types, or different optionality.
\<close>

definition concerns_baseline_field ::
  "string \<Rightarrow> definition_entry \<Rightarrow> definition_entry \<Rightarrow> VerificationIssue \<Rightarrow> bool" where
  "concerns_baseline_field name baseline current i =
     (\<exists>g p bp. g \<in> prop_name ` set (td_properties (fst baseline))
        \<and> ((g \<notin> prop_name ` set (td_properties (fst current))
               \<and> i = missing_property_issue name g p baseline current)
           \<or> (g \<in> prop_name ` set (td_properties (fst current))
               \<and> prop_type bp \<noteq> prop_type p
               \<and> \<not> areTypesCompatible (prop_type bp) (prop_type p)
               \<and> i = type_mismatch_issue name g bp p baseline current)
           \<or> (g \<in> prop_name ` set (td_properties (fst current))
               \<and> prop_optional bp \<noteq> prop_optional p
               \<and> i = optionality_issue name g bp p baseline current)))"

text \<open>
  The issues of the last loop: those built by \<open>redefined_import_issue\<close>; and what one import
  of one contract contributes to them, which depends on the first declaration of the
  imported name among the contract's types only (\<open>contract.types.find\<close>).
\<close>

definition is_redefined_import_issue :: "VerificationIssue \<Rightarrow> bool" where
  "is_redefined_import_issue i = (\<exists>c imp l pd. i = redefined_import_issue c imp l pd)"

definition first_declaration_conflicts ::
  "SharedPrimitives \<Rightarrow> ParsedContract \<Rightarrow> ImportInfo \<Rightarrow> VerificationIssue list" where
  "first_declaration_conflicts primitives c imp =
     (case find (\<lambda>t. td_name t = imp_name imp) (pc_types c) of
        None \<Rightarrow> []
      | Some l \<Rightarrow>
          (case map_of (prim_types primitives) (imp_name imp) of
             None \<Rightarrow> []
           | Some pd \<Rightarrow>
               if td_kind l \<noteq> td_kind pd then [redefined_import_issue c imp l pd] else []))"

text \<open>
  Two contracts that declare the record \<open>UserRef\<close>: \<open>contract_A\<close> with the fields \<open>id\<close> and
  \<open>email\<close>, \<open>contract_B\<close> with \<open>id\<close>, \<open>email\<close> and \<open>phone\<close>.
\<close>

definition phone_property :: PropertyInfo where
  "phone_property = \<lparr> prop_name = ''phone'', prop_type = ''string'', prop_optional = False \<rparr>"

definition userRef_short :: TypeDefinition where
  "userRef_short =
     \<lparr> td_name = ''UserRef'', td_kind = Interface,
       td_properties = [\<lparr> prop_name = ''id'', prop_type = ''string'', prop_optional = False \<rparr>,
                        \<lparr> prop_name = ''email'', prop_type = ''string'', prop_optional = False \<rparr>],
       td_rawContent = ''export interface UserRef { id: string; email: string; }'',
       td_line = 5 \<rparr>"

definition userRef_long :: TypeDefinition where
  "userRef_long =
     \<lparr> td_name = ''UserRef'', td_kind = Interface,
       td_properties = [\<lparr> prop_name = ''id'', prop_type = ''string'', prop_optional = False \<rparr>,
                        \<lparr> prop_name = ''email'', prop_type = ''string'', prop_optional = False \<rparr>,
                        phone_property],
       td_rawContent = ''export interface UserRef { id: string; email: string; phone: string; }'',
       td_line = 7 \<rparr>"

definition contract_A :: ParsedContract where
  "contract_A = \<lparr> pc_filePath = ''A.md'', pc_name = ''A'', pc_imports = [],
      pc_types = [userRef_short], pc_serviceMethods = [], pc_apiRoutes = [] \<rparr>"

definition contract_B :: ParsedContract where
  "contract_B = \<lparr> pc_filePath = ''B.md'', pc_name = ''B'', pc_imports = [],
      pc_types = [userRef_long], pc_serviceMethods = [], pc_apiRoutes = [] \<rparr>"









subsection \<open>Naming consistency\<close>

text \<open>
  A shared vocabulary that declares the aliases \<open>UserType\<close> and \<open>UserTypes\<close>, and one that
  declares \<open>CustomerOrderId\<close> and \<open>CustomerOrder\<close>.
\<close>

definition alias_decl :: "string \<Rightarrow> nat \<Rightarrow> TypeDefinition" where
  "alias_decl n l =
     \<lparr> td_name = n, td_kind = TypeAlias, td_properties = [],
       td_rawContent = ''export type '' @ n @ '' = string;'', td_line = l \<rparr>"

definition userType_primitives :: SharedPrimitives where
  "userType_primitives =
     \<lparr> prim_types = [(''UserType'', alias_decl ''UserType'' 3),
                      (''UserTypes'', alias_decl ''UserTypes'' 4)],
       prim_filePath = ''shared.types.ts'' \<rparr>"

definition customer_primitives :: SharedPrimitives where
  "customer_primitives =
     \<lparr> prim_types = [(''CustomerOrderId'', alias_decl ''CustomerOrderId'' 3),
                      (''CustomerOrder'', alias_decl ''CustomerOrder'' 4)],
       prim_filePath = ''shared.types.ts'' \<rparr>"

subsection \<open>Cycle detection\<close>

text \<open>The edges of a graph: \<open>v\<close> is a neighbour of \<open>u\<close>.\<close>

definition graph_edges :: "graph \<Rightarrow> (string \<times> string) set" where
  "graph_edges g = {(u, v). v \<in> set (neighbors_of g u)}"

subsection \<open>Parsing\<close>

text \<open>
  A contract document of seven lines: a title, an empty line, a fenced region with an
  import on line 4 and a type alias on line 5, and a route heading on line 7.
\<close>

definition user_contract_lines :: "string list" where
  "user_contract_lines =
     [''# User Contract'',
      [],
      ''```typescript'',
      ''import { OrderId } from '' @ [CHR 0x27] @ ''../shared/shared.types'' @ [CHR 0x27] @ '';'',
      ''export type UserId = string;'',
      ''```'',
      ''### GET /users'']"

definition user_contract_doc :: string where
  "user_contract_doc = join [CHR 0x0A] user_contract_lines"

subsection \<open>A run on the shared vocabulary alone\<close>

text \<open>
  A file system that holds one file, a shared vocabulary declaring \<open>UserType\<close> and
  \<open>UserTypes\<close>, and the options of a run with no contract.
\<close>

definition vocabulary_only_fs :: file_system where
  "vocabulary_only_fs path =
     (if path = ''shared.types.ts''
      then Some (join [CHR 0x0A] [''export type UserType = string;'',
                                  ''export type UserTypes = string;'', []])
      else None)"

definition vocabulary_only_options :: VerifyContractsOptions where
  "vocabulary_only_options =
     \<lparr> primitivesPath = ''shared.types.ts'', contractPaths = [], verbose = None \<rparr>"

section \<open>Theorems\<close>

subsection \<open>Pass/fail outcome\<close>

text \<open>
  C1.  The report's \<open>passed\<close> flag is true exactly when the issue list holds no issue of
  severity \<open>error\<close>; the issue list of the report is the list collected by the run; and
  the warnings do not matter: removing every warning from the list, or appending any
  list of warnings to it, leaves the flag as it is.
\<close>

theorem generateReport_passed_iff_no_error:
  "passed (generateReport now p cs iss g) = (filter (\<lambda>i. vi_severity i = Error) iss = [])
   \<and> issues (generateReport now p cs iss g) = iss
   \<and> passed (generateReport now p cs (filter (\<lambda>i. vi_severity i \<noteq> Warning) iss) g)
       = passed (generateReport now p cs iss g)
   \<and> passed (generateReport now p cs (iss @ filter (\<lambda>i. vi_severity i = Warning) ws) g)
       = passed (generateReport now p cs iss g)"
proof -
  have sev: "\<And>i::VerificationIssue. (vi_severity i \<noteq> Warning) = (vi_severity i = Error)"
    by (metis severity.exhaust severity.distinct(1))
  have keep: "filter (\<lambda>i. vi_severity i = Error) (filter (\<lambda>i. vi_severity i \<noteq> Warning) iss)
                = filter (\<lambda>i. vi_severity i = Error) iss"
    by (simp add: sev)
  have drop: "filter (\<lambda>i. vi_severity i = Error) (filter (\<lambda>i. vi_severity i = Warning) ws) = []"
    by (simp add: filter_empty_conv)
  show ?thesis
    using keep drop by (simp add: generateReport_def Let_def)
qed

subsection \<open>The field-type compatibility check: symmetry and what it accepts\<close>

lemma toLowerCase_char_idem: "toLowerCase_char (toLowerCase_char c) = toLowerCase_char c"
proof (cases "CHR ''A'' \<le> c \<and> c \<le> CHR ''Z''")
  case True
  then have "(65::nat) \<le> of_char c" "of_char c \<le> (90::nat)"
    by (simp_all add: less_eq_char_def)
  then have up: "\<not> (char_of (of_char c + (32::nat)) \<le> CHR ''Z'')"
    by (simp add: less_eq_char_def)
  have low: "toLowerCase_char c = char_of (of_char c + (32::nat))"
    unfolding toLowerCase_char_def using True by (rule if_P)
  have "toLowerCase_char (char_of (of_char c + (32::nat))) = char_of (of_char c + (32::nat))"
    unfolding toLowerCase_char_def [of "char_of (of_char c + (32::nat))"]
    using up by (intro if_not_P) blast
  then show ?thesis by (simp only: low)
next
  case False
  then have "toLowerCase_char c = c"
    unfolding toLowerCase_char_def by (rule if_not_P)
  then show ?thesis by simp
qed

lemma normalize_toLowerCase: "normalize (toLowerCase t) = normalize t"
  by (simp add: normalize_def toLowerCase_def comp_def toLowerCase_char_idem)

lemma toLowerCase_char_space: "is_space c \<Longrightarrow> toLowerCase_char c = c"
  by (auto simp: is_space_def toLowerCase_char_def less_eq_char_def)

lemma normalize_spaces: "normalize (filter is_space w) = []"
  by (induction w) (auto simp: normalize_def toLowerCase_def toLowerCase_char_space)

lemma normalize_append: "normalize (u @ v) = normalize u @ normalize v"
  by (simp add: normalize_def toLowerCase_def)

lemma equivalences_loop_iff:
  "equivalences_loop es a b = ((a, b) \<in> set es \<or> (b, a) \<in> set es)"
  by (induction es a b rule: equivalences_loop.induct) auto

text \<open>
  C9.  \<open>areTypesCompatible\<close> gives the same answer for \<open>(a, b)\<close> and \<open>(b, a)\<close>, and so does
  the whole test that guards the type-mismatch error of the shape comparison
  (\<open>baseProp.type !== prop.type\<close> and not compatible).  It accepts exactly the pairs whose
  normalized spellings (lower case, white space removed) are equal and the pairs of the
  equivalence table, in either order.  The table is \<open>string/String\<close>, \<open>number/Number\<close>,
  \<open>boolean/Boolean\<close>, \<open>Date/string\<close>, and each entry is accepted in both orders.  Every
  spelling is compatible with itself, with its lower-case form, and with every spelling
  obtained from it by inserting white space anywhere, in both orders; \<open>Array<UserId>\<close> and
  \<open>array < userid >\<close> are compatible, \<open>string\<close> and \<open>number\<close> are not.
\<close>

theorem areTypesCompatible_sym_and_accepts:
  "areTypesCompatible a b = areTypesCompatible b a
   \<and> (a \<noteq> b \<and> \<not> areTypesCompatible a b) = (b \<noteq> a \<and> \<not> areTypesCompatible b a)
   \<and> areTypesCompatible a b
       = (normalize a = normalize b \<or> (a, b) \<in> set equivalences \<or> (b, a) \<in> set equivalences)
   \<and> equivalences = [(''string'', ''String''), (''number'', ''Number''),
                       (''boolean'', ''Boolean''), (''Date'', ''string'')]
   \<and> areTypesCompatible ''string'' ''String'' \<and> areTypesCompatible ''String'' ''string''
   \<and> areTypesCompatible ''number'' ''Number'' \<and> areTypesCompatible ''Number'' ''number''
   \<and> areTypesCompatible ''boolean'' ''Boolean'' \<and> areTypesCompatible ''Boolean'' ''boolean''
   \<and> areTypesCompatible ''Date'' ''string'' \<and> areTypesCompatible ''string'' ''Date''
   \<and> areTypesCompatible t t
   \<and> areTypesCompatible t (toLowerCase t) \<and> areTypesCompatible (toLowerCase t) t
   \<and> areTypesCompatible (u @ filter is_space w @ v) (u @ v)
   \<and> areTypesCompatible (u @ v) (u @ filter is_space w @ v)
   \<and> areTypesCompatible ''Array<UserId>'' ''array < userid >''
   \<and> \<not> areTypesCompatible ''string'' ''number''"
proof -
  have iff: "areTypesCompatible x y
       = (normalize x = normalize y \<or> (x, y) \<in> set equivalences \<or> (y, x) \<in> set equivalences)"
    for x y
    by (simp add: areTypesCompatible_def equivalences_loop_iff)
  have sym: "areTypesCompatible a b = areTypesCompatible b a"
    unfolding iff by auto
  have nsp: "normalize (u @ filter is_space w @ v) = normalize (u @ v)"
    by (simp add: normalize_append normalize_spaces)
  have table: "areTypesCompatible ''string'' ''String'' \<and> areTypesCompatible ''String'' ''string''
   \<and> areTypesCompatible ''number'' ''Number'' \<and> areTypesCompatible ''Number'' ''number''
   \<and> areTypesCompatible ''boolean'' ''Boolean'' \<and> areTypesCompatible ''Boolean'' ''boolean''
   \<and> areTypesCompatible ''Date'' ''string'' \<and> areTypesCompatible ''string'' ''Date''"
    unfolding iff by (simp add: equivalences_def)
  have ex: "areTypesCompatible ''Array<UserId>'' ''array < userid >''
            \<and> \<not> areTypesCompatible ''string'' ''number''"
    by code_simp
  have "areTypesCompatible t t" "areTypesCompatible t (toLowerCase t)"
       "areTypesCompatible (toLowerCase t) t"
       "areTypesCompatible (u @ filter is_space w @ v) (u @ v)"
       "areTypesCompatible (u @ v) (u @ filter is_space w @ v)"
    unfolding iff by (simp_all add: normalize_toLowerCase nsp)
  then have norm: "areTypesCompatible t t \<and> areTypesCompatible t (toLowerCase t)
       \<and> areTypesCompatible (toLowerCase t) t
       \<and> areTypesCompatible (u @ filter is_space w @ v) (u @ v)
       \<and> areTypesCompatible (u @ v) (u @ filter is_space w @ v)"
    by simp
  have guard: "(a \<noteq> b \<and> \<not> areTypesCompatible a b) = (b \<noteq> a \<and> \<not> areTypesCompatible b a)"
    using sym by auto
  have tab: "equivalences = [(''string'', ''String''), (''number'', ''Number''),
                       (''boolean'', ''Boolean''), (''Date'', ''string'')]"
    by (simp add: equivalences_def)
  show ?thesis
    using sym guard iff [of a b] tab table norm ex by blast
qed

subsection \<open>Loops that push to a list, and JavaScript maps\<close>

lemma foldl_append_conv:
  assumes "\<And>acc x. f acc x = acc @ g x"
  shows "foldl f acc xs = acc @ concat (map g xs)"
  by (induction xs arbitrary: acc) (simp_all add: assms)

lemma keys_jsmap_set: "fst ` set (jsmap_set m k v) = insert k (fst ` set m)"
  by (induction m k v rule: jsmap_set.induct) auto

lemma map_of_jsmap_set: "map_of (jsmap_set m k v) = (map_of m)(k \<mapsto> v)"
  by (induction m k v rule: jsmap_set.induct) (auto simp: fun_eq_iff)

lemma jsmap_has_keys: "jsmap_has m k = (k \<in> fst ` set m)"
  by (simp add: jsmap_has_def map_of_eq_None_iff)

lemma keys_foldl_jsmap_set:
  "fst ` set (foldl (\<lambda>m x. jsmap_set m (kf x) (vf x)) m xs) = fst ` set m \<union> kf ` set xs"
  by (induction xs arbitrary: m) (auto simp: keys_jsmap_set)

lemma keys_jsmap_of_list: "fst ` set (jsmap_of_list es) = fst ` set es"
  unfolding jsmap_of_list_def case_prod_beta'
  using keys_foldl_jsmap_set [of fst snd "[]" es] by simp

lemma map_of_rev_distinct:
  "distinct (map fst xs) \<Longrightarrow> map_of (rev xs) = map_of xs"
proof (induction xs)
  case Nil
  then show ?case by simp
next
  case (Cons a xs)
  then have "map_of xs (fst a) = None"
    by (simp add: map_of_eq_None_iff)
  with Cons show ?case
    by (auto simp: fun_eq_iff map_add_def split: option.splits)
qed

subsection \<open>Import resolution\<close>

lemma keys_contract_types:
  "fst ` set (foldl (\<lambda>m contract.
              foldl (\<lambda>m t. jsmap_set m (td_name t) (pc_filePath contract)) m (pc_types contract))
            m cs)
   = fst ` set m \<union> (\<Union>c \<in> set cs. td_name ` set (pc_types c))"
  by (induction cs arbitrary: m) (auto simp: keys_foldl_jsmap_set)

lemma keys_availableTypes:
  "fst ` set (availableTypes_of contracts primitives) = declared_names contracts primitives"
  unfolding availableTypes_of_def declared_names_def
  by (simp add: keys_contract_types keys_jsmap_of_list image_image)

text \<open>
  C3, as stated, fails.  The import of \<open>Foo\<close> from \<open>@acme/types\<close> names a source that is not
  on the list of external libraries and is not a relative path, and \<open>Foo\<close> is declared
  nowhere; yet no issue is emitted, because every source that begins with \<open>@\<close> is skipped.
\<close>

theorem unlisted_scoped_source_not_flagged:
  "imp_source scoped_import \<notin> set externalLibraries
   \<and> \<not> startsWith (imp_source scoped_import) ''.''
   \<and> imp_name scoped_import \<notin> declared_names [scoped_contract] no_primitives
   \<and> scoped_import \<in> set (pc_imports scoped_contract)
   \<and> checkImportResolution [scoped_contract] no_primitives = []"
  by (simp add: scoped_import_def scoped_contract_def no_primitives_def externalLibraries_def
        startsWith_def declared_names_def checkImportResolution_def availableTypes_of_def
        jsmap_of_list_def)

text \<open>
  C3, amended.  The issues of \<open>checkImportResolution\<close> are exactly the unresolved-import
  errors of the imports, taken contract by contract in order, whose name is declared neither
  by the shared vocabulary nor by any contract and whose source is not exempt; a source is
  exempt when it is on the list of external libraries, or begins with \<open>@\<close>, or begins with
  a dot and does not contain \<open>shared\<close>.
\<close>

theorem checkImportResolution_exact:
  "checkImportResolution contracts primitives =
     concat (map (\<lambda>c. map (unresolved_import_issue c)
                         (filter (\<lambda>imp. \<not> exempt_source (imp_source imp)
                                      \<and> imp_name imp \<notin> declared_names contracts primitives)
                            (pc_imports c)))
               contracts)"
proof -
  let ?flag = "\<lambda>imp. \<not> exempt_source (imp_source imp)
                       \<and> imp_name imp \<notin> declared_names contracts primitives"
  let ?g = "\<lambda>c imp. if ?flag imp then [unresolved_import_issue c imp] else []"
  have inner: "foldl (\<lambda>issues imp.
          if imp_source imp \<in> set externalLibraries \<or> startsWith (imp_source imp) ''@''
          then issues
          else if startsWith (imp_source imp) ''.'' \<and> \<not> includes_str (imp_source imp) ''shared''
          then issues
          else if jsmap_has (availableTypes_of contracts primitives) (imp_name imp)
          then issues
          else issues @ [unresolved_import_issue c imp]) acc imps
        = acc @ concat (map (?g c) imps)" for c acc imps
    by (rule foldl_append_conv)
       (auto simp: exempt_source_def jsmap_has_keys keys_availableTypes)
  have flt: "concat (map (?g c) imps) = map (unresolved_import_issue c) (filter ?flag imps)"
    for c imps
    by (induction imps) simp_all
  show ?thesis
    unfolding checkImportResolution_def Let_def inner flt
    by (simp add: foldl_append_conv
          [where g = "\<lambda>c. map (unresolved_import_issue c) (filter ?flag (pc_imports c))"])
qed

subsection \<open>Type shape compatibility: redefined imports\<close>

lemma check_redefined_import_append:
  "check_redefined_import p c acc imp = acc @ check_redefined_import p c [] imp"
  by (simp add: check_redefined_import_def split: option.splits)

lemma redefined_loop_conv:
  "foldl (\<lambda>issues contract.
            foldl (check_redefined_import p contract) issues (pc_imports contract)) acc cs
   = acc @ concat (map (\<lambda>c. concat (map (check_redefined_import p c []) (pc_imports c))) cs)"
proof -
  have inner: "foldl (check_redefined_import p c) a imps
                 = a @ concat (map (check_redefined_import p c []) imps)" for c a imps
    by (rule foldl_append_conv) (rule check_redefined_import_append)
  show ?thesis
    unfolding inner by (rule foldl_append_conv) simp
qed

lemma checkTypeShapeCompatibility_split:
  "checkTypeShapeCompatibility contracts p =
     foldl compare_definitions [] (typesByName_of contracts p)
     @ concat (map (\<lambda>c. concat (map (check_redefined_import p c []) (pc_imports c))) contracts)"
  by (simp add: checkTypeShapeCompatibility_def Let_def redefined_loop_conv)

subsection \<open>Type shape compatibility: missing properties\<close>

lemma map_of_push_definition:
  "map_of (push_definition f m t) =
     (map_of m)(td_name t \<mapsto> entries_of m (td_name t) @ [(t, f)])"
  by (auto simp: push_definition_def entries_of_def jsmap_has_def map_of_jsmap_set Let_def
           split: option.splits)

lemma entries_of_push_definition:
  "entries_of (push_definition f m t) k =
     entries_of m k @ (if td_name t = k then [(t, f)] else [])"
  by (simp add: entries_of_def map_of_push_definition)

lemma entries_of_push_all:
  "entries_of (foldl (push_definition f) m ts) k =
     entries_of m k @ map (\<lambda>t. (t, f)) (filter (\<lambda>t. td_name t = k) ts)"
  by (induction ts arbitrary: m) (simp_all add: entries_of_push_definition)

lemma entries_of_push_contracts:
  "entries_of (foldl (\<lambda>m c. foldl (push_definition (pc_filePath c)) m (pc_types c)) m cs) k =
     entries_of m k @ contract_definitions cs k"
  by (induction cs arbitrary: m) (simp_all add: entries_of_push_all contract_definitions_def)

lemma typesByName_of_alt:
  "typesByName_of contracts p =
     foldl (\<lambda>m c. foldl (push_definition (pc_filePath c)) m (pc_types c))
       (primitive_entries p) contracts"
  unfolding typesByName_of_def primitive_entries_def push_definition_def Let_def by simp

lemma map_of_foldl_set:
  "map_of (foldl (\<lambda>m (name, t). jsmap_set m name (g t)) m ps) k =
     (case map_of (rev ps) k of None \<Rightarrow> map_of m k | Some t \<Rightarrow> Some (g t))"
proof (induction ps arbitrary: m)
  case Nil
  then show ?case by simp
next
  case (Cons a ps)
  obtain n t where a: "a = (n, t)" by (cases a)
  show ?case
    by (simp add: a Cons.IH map_of_jsmap_set map_add_def split: option.splits)
qed

lemma map_of_primitive_entries:
  "map_of (primitive_entries p) k =
     map_option (\<lambda>t. [(t, prim_filePath p)]) (map_of (rev (prim_types p)) k)"
  unfolding primitive_entries_def
  by (simp add: map_of_foldl_set [where g = "\<lambda>t. [(t, prim_filePath p)]"] split: option.splits)

lemma entries_of_typesByName:
  assumes "distinct (map fst (prim_types p))"
  shows "entries_of (typesByName_of contracts p) name = definitions_of contracts p name"
  by (simp add: typesByName_of_alt entries_of_push_contracts definitions_of_def)
     (simp add: entries_of_def map_of_primitive_entries map_of_rev_distinct [OF assms]
           split: option.splits)

lemma typesByName_entry:
  assumes "distinct (map fst (prim_types p))"
    and "definitions_of contracts p name \<noteq> []"
  shows "(name, definitions_of contracts p name) \<in> set (typesByName_of contracts p)"
proof -
  have "entries_of (typesByName_of contracts p) name \<noteq> []"
    using assms by (simp add: entries_of_typesByName)
  then obtain ds where "map_of (typesByName_of contracts p) name = Some ds"
    by (auto simp: entries_of_def split: option.splits)
  moreover from this have "ds = definitions_of contracts p name"
    using entries_of_typesByName [OF assms(1), of contracts name] by (simp add: entries_of_def)
  ultimately show ?thesis by (auto dest: map_of_SomeD)
qed

lemma keys_props_map: "fst ` set (props_map t) = prop_name ` set (td_properties t)"
  by (simp add: props_map_def keys_jsmap_of_list image_image)

lemma compare_to_baseline_conv:
  "compare_to_baseline name baseline acc current
     = acc @ concat (map (missing_issues name baseline current) (props_map (fst baseline)))
           @ concat (map (drift_issues name baseline current) (props_map (fst current)))"
proof -
  have one: "foldl (\<lambda>issues (propName, prop).
                      if \<not> jsmap_has (props_map (fst current)) propName
                      then issues @ [missing_property_issue name propName prop baseline current]
                      else issues) a ps
             = a @ concat (map (missing_issues name baseline current) ps)" for a ps
    by (rule foldl_append_conv) (simp add: missing_issues_def split_beta)
  have two: "foldl (\<lambda>issues (propName, prop).
           (case map_of (props_map (fst baseline)) propName of
              None \<Rightarrow> issues
            | Some baseProp \<Rightarrow>
                (let issues' =
                   (if prop_type baseProp \<noteq> prop_type prop
                       \<and> \<not> areTypesCompatible (prop_type baseProp) (prop_type prop)
                    then issues @ [type_mismatch_issue name propName baseProp prop baseline current]
                    else issues)
                 in if prop_optional baseProp \<noteq> prop_optional prop
                    then issues' @ [optionality_issue name propName baseProp prop baseline current]
                    else issues'))) a ps
             = a @ concat (map (drift_issues name baseline current) ps)" for a ps
    by (rule foldl_append_conv)
       (simp add: drift_issues_def split_beta Let_def split: option.splits)
  show ?thesis
    unfolding compare_to_baseline_def Let_def one two [unfolded Let_def] by simp
qed

lemma compare_to_baseline_append:
  "compare_to_baseline name baseline acc current
     = acc @ compare_to_baseline name baseline [] current"
  by (simp add: compare_to_baseline_conv [of _ _ acc] compare_to_baseline_conv [of _ _ "[]"])

lemma missing_in_compare_to_baseline:
  assumes "f \<in> prop_name ` set (td_properties (fst baseline))"
    and "f \<notin> prop_name ` set (td_properties (fst current))"
  shows "\<exists>p. missing_property_issue name f p baseline current
            \<in> set (compare_to_baseline name baseline [] current)"
proof -
  from assms(1) obtain p where in_base: "(f, p) \<in> set (props_map (fst baseline))"
    using keys_props_map [of "fst baseline"] by force
  have not_cur: "\<not> jsmap_has (props_map (fst current)) f"
    using assms(2) by (simp add: jsmap_has_keys keys_props_map)
  have "missing_issues name baseline current (f, p)
          = [missing_property_issue name f p baseline current]"
    using not_cur by (simp add: missing_issues_def)
  then have "missing_property_issue name f p baseline current
          \<in> set (concat (map (missing_issues name baseline current) (props_map (fst baseline))))"
    using in_base by force
  then show ?thesis
    by (auto simp: compare_to_baseline_conv)
qed

lemma compare_definitions_append:
  "compare_definitions acc e = acc @ compare_definitions [] e"
proof -
  have "foldl (compare_to_baseline name b) a cs
          = a @ concat (map (compare_to_baseline name b []) cs)" for name b a cs
    by (rule foldl_append_conv) (rule compare_to_baseline_append)
  then show ?thesis
    unfolding compare_definitions_def Let_def by (cases e) simp
qed

lemma compare_loop_conv:
  "foldl compare_definitions [] m = concat (map (compare_definitions []) m)"
  using foldl_append_conv [where f = compare_definitions and g = "compare_definitions []"
          and acc = "[]" and xs = m, OF compare_definitions_append]
  by simp

lemma missing_in_compare_definitions:
  assumes "filter (\<lambda>d. td_kind (fst d) = Interface) definitions = baseline # rest"
    and "current \<in> set rest"
    and "f \<in> prop_name ` set (td_properties (fst baseline))"
    and "f \<notin> prop_name ` set (td_properties (fst current))"
  shows "\<exists>p. missing_property_issue name f p baseline current
            \<in> set (compare_definitions [] (name, definitions))"
proof -
  let ?ifs = "filter (\<lambda>d. td_kind (fst d) = Interface) definitions"
  have len: "length ?ifs > 1"
    using assms(1,2) by (cases rest) auto
  have "length ?ifs \<le> length definitions" by simp
  with len have len': "\<not> length definitions \<le> 1" by linarith
  have conv: "foldl (compare_to_baseline name baseline) [] rest
          = concat (map (compare_to_baseline name baseline []) rest)"
    using foldl_append_conv [where f = "compare_to_baseline name baseline"
            and g = "compare_to_baseline name baseline []" and acc = "[]" and xs = rest,
            OF compare_to_baseline_append]
    by simp
  obtain p where "missing_property_issue name f p baseline current
            \<in> set (compare_to_baseline name baseline [] current)"
    using missing_in_compare_to_baseline [OF assms(3,4)] by blast
  then have "missing_property_issue name f p baseline current
            \<in> set (foldl (compare_to_baseline name baseline) [] rest)"
    unfolding conv using assms(2) by auto
  then show ?thesis
    using len len' assms(1) by (auto simp: compare_definitions_def Let_def)
qed

subsection \<open>Type shape compatibility: what the issues are about\<close>

lemma map_fst_jsmap_set:
  "map fst (jsmap_set m k v) = (if k \<in> fst ` set m then map fst m else map fst m @ [k])"
  by (induction m k v rule: jsmap_set.induct) auto

lemma distinct_jsmap_set:
  "distinct (map fst m) \<Longrightarrow> distinct (map fst (jsmap_set m k v))"
  by (simp add: map_fst_jsmap_set)

lemma distinct_foldl_jsmap_set:
  "distinct (map fst m) \<Longrightarrow> distinct (map fst (foldl (\<lambda>m x. jsmap_set m (kf x) (vf x)) m xs))"
  by (induction xs arbitrary: m) (simp_all add: distinct_jsmap_set)

lemma distinct_props_map: "distinct (map fst (props_map t))"
  unfolding props_map_def jsmap_of_list_def case_prod_beta'
  using distinct_foldl_jsmap_set [of "[]" fst snd] by simp

lemma distinct_primitive_entries: "distinct (map fst (primitive_entries p))"
  unfolding primitive_entries_def case_prod_beta'
  using distinct_foldl_jsmap_set [of "[]" fst "\<lambda>x. [(snd x, prim_filePath p)]"] by simp

lemma distinct_push_definition:
  "distinct (map fst m) \<Longrightarrow> distinct (map fst (push_definition f m t))"
  by (auto simp: push_definition_def Let_def distinct_jsmap_set split: option.splits)

lemma distinct_typesByName: "distinct (map fst (typesByName_of contracts p))"
proof -
  have inner: "distinct (map fst m) \<Longrightarrow> distinct (map fst (foldl (push_definition f) m ts))"
    for m f ts
    by (induction ts arbitrary: m) (simp_all add: distinct_push_definition)
  have "distinct (map fst m) \<Longrightarrow>
        distinct (map fst (foldl (\<lambda>m c. foldl (push_definition (pc_filePath c)) m (pc_types c)) m cs))"
    for m cs
    by (induction cs arbitrary: m) (simp_all add: inner)
  then show ?thesis
    unfolding typesByName_of_alt using distinct_primitive_entries by blast
qed

lemma typesByName_entry_is_definitions:
  assumes "distinct (map fst (prim_types p))"
    and "(name, ds) \<in> set (typesByName_of contracts p)"
  shows "ds = definitions_of contracts p name"
proof -
  have "map_of (typesByName_of contracts p) name = Some ds"
    using distinct_typesByName assms(2) by (rule map_of_is_SomeI)
  then have "entries_of (typesByName_of contracts p) name = ds"
    by (simp add: entries_of_def)
  then show ?thesis
    using entries_of_typesByName [OF assms(1), of contracts name] by simp
qed

lemma missing_issues_concerns:
  assumes "e \<in> set (props_map (fst baseline))"
    and "i \<in> set (missing_issues name baseline current e)"
  shows "concerns_baseline_field name baseline current i"
proof -
  have nh: "\<not> jsmap_has (props_map (fst current)) (fst e)"
    using assms(2) unfolding missing_issues_def by (simp split: if_splits)
  then have i: "i = missing_property_issue name (fst e) (snd e) baseline current"
    using assms(2) unfolding missing_issues_def by simp
  have "fst e \<in> fst ` set (props_map (fst baseline))"
    using assms(1) by (rule imageI)
  then have g1: "fst e \<in> prop_name ` set (td_properties (fst baseline))"
    by (simp only: keys_props_map)
  have g2: "fst e \<notin> prop_name ` set (td_properties (fst current))"
    using nh by (simp only: jsmap_has_keys keys_props_map not_False_eq_True)
  show ?thesis
    unfolding concerns_baseline_field_def
    by (rule exI [of _ "fst e"], rule exI [of _ "snd e"], rule exI [of _ "snd e"],
        rule conjI [OF g1], rule disjI1, rule conjI [OF g2 i])
qed

lemma drift_issues_concerns:
  assumes "e \<in> set (props_map (fst current))"
    and "i \<in> set (drift_issues name baseline current e)"
  shows "concerns_baseline_field name baseline current i"
proof (cases "map_of (props_map (fst baseline)) (fst e)")
  case None
  then show ?thesis using assms(2) unfolding drift_issues_def by simp
next
  case (Some bp)
  then have "(fst e, bp) \<in> set (props_map (fst baseline))"
    by (rule map_of_SomeD)
  then have "fst (fst e, bp) \<in> fst ` set (props_map (fst baseline))"
    by (rule imageI)
  then have g1: "fst e \<in> prop_name ` set (td_properties (fst baseline))"
    by (simp only: keys_props_map fst_conv)
  have "fst e \<in> fst ` set (props_map (fst current))"
    using assms(1) by (rule imageI)
  then have g2: "fst e \<in> prop_name ` set (td_properties (fst current))"
    by (simp only: keys_props_map)
  have "(prop_type bp \<noteq> prop_type (snd e)
          \<and> \<not> areTypesCompatible (prop_type bp) (prop_type (snd e))
          \<and> i = type_mismatch_issue name (fst e) bp (snd e) baseline current)
       \<or> (prop_optional bp \<noteq> prop_optional (snd e)
          \<and> i = optionality_issue name (fst e) bp (snd e) baseline current)"
    using assms(2) unfolding drift_issues_def Some by (auto split: if_splits)
  then show ?thesis
  proof
    assume a: "prop_type bp \<noteq> prop_type (snd e)
          \<and> \<not> areTypesCompatible (prop_type bp) (prop_type (snd e))
          \<and> i = type_mismatch_issue name (fst e) bp (snd e) baseline current"
    show ?thesis
      unfolding concerns_baseline_field_def
      by (rule exI [of _ "fst e"], rule exI [of _ "snd e"], rule exI [of _ bp],
          rule conjI [OF g1], rule disjI2, rule disjI1,
          rule conjI [OF g2 a])
  next
    assume a: "prop_optional bp \<noteq> prop_optional (snd e)
          \<and> i = optionality_issue name (fst e) bp (snd e) baseline current"
    show ?thesis
      unfolding concerns_baseline_field_def
      by (rule exI [of _ "fst e"], rule exI [of _ "snd e"], rule exI [of _ bp],
          rule conjI [OF g1], rule disjI2, rule disjI2,
          rule conjI [OF g2 a])
  qed
qed

lemma compare_to_baseline_concerns:
  assumes "i \<in> set (compare_to_baseline name baseline [] current)"
  shows "concerns_baseline_field name baseline current i"
proof -
  have "i \<in> set (concat (map (missing_issues name baseline current) (props_map (fst baseline))))
        \<or> i \<in> set (concat (map (drift_issues name baseline current) (props_map (fst current))))"
    using assms unfolding compare_to_baseline_conv [of name baseline "[]" current]
    by (simp only: append_Nil set_append Un_iff)
  then show ?thesis
  proof
    assume "i \<in> set (concat (map (missing_issues name baseline current)
                  (props_map (fst baseline))))"
    then obtain e where "e \<in> set (props_map (fst baseline))"
        "i \<in> set (missing_issues name baseline current e)"
      by auto
    then show ?thesis by (rule missing_issues_concerns)
  next
    assume "i \<in> set (concat (map (drift_issues name baseline current)
                  (props_map (fst current))))"
    then obtain e where "e \<in> set (props_map (fst current))"
        "i \<in> set (drift_issues name baseline current e)"
      by auto
    then show ?thesis by (rule drift_issues_concerns)
  qed
qed

lemma compare_definitions_concerns:
  assumes "i \<in> set (compare_definitions [] (name, ds))"
  shows "\<exists>baseline rest current.
           filter (\<lambda>d. td_kind (fst d) = Interface) ds = baseline # rest
           \<and> current \<in> set rest \<and> concerns_baseline_field name baseline current i"
proof -
  define ifs where "ifs = filter (\<lambda>d. td_kind (fst d) = Interface) ds"
  have conv: "foldl (compare_to_baseline name b) [] cs
          = concat (map (compare_to_baseline name b []) cs)" for b cs
    using foldl_append_conv [where f = "compare_to_baseline name b"
            and g = "compare_to_baseline name b []" and acc = "[]" and xs = cs,
            OF compare_to_baseline_append]
    by simp
  have cd: "compare_definitions [] (name, ds)
        = (if length ds \<le> 1 then []
           else if length ifs > 1
                then foldl (compare_to_baseline name (hd ifs)) [] (tl ifs) else [])"
    by (simp add: compare_definitions_def Let_def ifs_def)
  from assms have len: "length ifs > 1"
      and i: "i \<in> set (foldl (compare_to_baseline name (hd ifs)) [] (tl ifs))"
    unfolding cd by (simp_all split: if_splits)
  from len obtain baseline rest where br: "ifs = baseline # rest"
    by (cases ifs) auto
  from i have "i \<in> set (concat (map (compare_to_baseline name baseline []) rest))"
    unfolding conv br by simp
  then obtain current where c: "current \<in> set rest"
      and ic: "i \<in> set (compare_to_baseline name baseline [] current)"
    by auto
  have "concerns_baseline_field name baseline current i"
    using ic by (rule compare_to_baseline_concerns)
  with br c show ?thesis
    unfolding ifs_def by (intro exI conjI)
qed

lemma shape_part_concerns:
  assumes "distinct (map fst (prim_types p))"
    and "i \<in> set (foldl compare_definitions [] (typesByName_of contracts p))"
  shows "\<exists>name baseline rest current.
           filter (\<lambda>d. td_kind (fst d) = Interface) (definitions_of contracts p name)
             = baseline # rest
           \<and> current \<in> set rest \<and> concerns_baseline_field name baseline current i"
proof -
  from assms(2) obtain e where e: "e \<in> set (typesByName_of contracts p)"
      and i: "i \<in> set (compare_definitions [] e)"
    unfolding compare_loop_conv by auto
  obtain name ds where nd: "e = (name, ds)" by (cases e)
  have ds: "ds = definitions_of contracts p name"
    using assms(1) e [unfolded nd] by (rule typesByName_entry_is_definitions)
  obtain baseline rest current where
    "filter (\<lambda>d. td_kind (fst d) = Interface) ds = baseline # rest"
    "current \<in> set rest" "concerns_baseline_field name baseline current i"
    using compare_definitions_concerns [OF i [unfolded nd]] by blast
  then show ?thesis
    unfolding ds by (intro exI conjI)
qed



lemma check_redefined_import_eq:
  "check_redefined_import p c [] imp = first_declaration_conflicts p c imp"
  by (simp add: check_redefined_import_def first_declaration_conflicts_def split: option.splits)

lemma first_declaration_conflicts_form:
  "i \<in> set (first_declaration_conflicts p c imp) \<Longrightarrow> is_redefined_import_issue i"
  unfolding first_declaration_conflicts_def is_redefined_import_issue_def
  by (auto split: option.splits if_splits)



lemma missing_property_issue_field:
  "missing_property_issue name g p' baseline current
     = missing_property_issue name f p baseline current \<Longrightarrow> g = f"
proof -
  assume "missing_property_issue name g p' baseline current
     = missing_property_issue name f p baseline current"
  then have "vi_message (missing_property_issue name g p' baseline current)
     = vi_message (missing_property_issue name f p baseline current)" by simp
  then show "g = f" by (simp add: missing_property_issue_def)
qed

lemma type_mismatch_issue_field:
  "type_mismatch_issue name g bp' p' baseline current
     = type_mismatch_issue name f bp p baseline current \<Longrightarrow> g = f"
proof -
  assume "type_mismatch_issue name g bp' p' baseline current
     = type_mismatch_issue name f bp p baseline current"
  then have "vi_suggestion (type_mismatch_issue name g bp' p' baseline current)
     = vi_suggestion (type_mismatch_issue name f bp p baseline current)" by simp
  then show "g = f" by (simp add: type_mismatch_issue_def)
qed

lemma optionality_issue_field:
  "optionality_issue name g bp' p' baseline current
     = optionality_issue name f bp p baseline current \<Longrightarrow> g = f"
proof -
  assume "optionality_issue name g bp' p' baseline current
     = optionality_issue name f bp p baseline current"
  then have "vi_suggestion (optionality_issue name g bp' p' baseline current)
     = vi_suggestion (optionality_issue name f bp p baseline current)" by simp
  then show "g = f" by (simp add: optionality_issue_def)
qed

lemma issue_forms_distinct:
  "missing_property_issue name g p' baseline current
     \<noteq> type_mismatch_issue name2 f bp p baseline2 current2"
  "missing_property_issue name g p' baseline current
     \<noteq> optionality_issue name2 f bp p baseline2 current2"
  "type_mismatch_issue name g bp' p' baseline current
     \<noteq> optionality_issue name2 f bp p baseline2 current2"
proof -
  have "vi_message (missing_property_issue name g p' baseline current) ! 5
     \<noteq> vi_message (type_mismatch_issue name2 f bp p baseline2 current2) ! 5"
    by (simp add: missing_property_issue_def type_mismatch_issue_def)
  then show "missing_property_issue name g p' baseline current
     \<noteq> type_mismatch_issue name2 f bp p baseline2 current2" by auto
  have "vi_severity (missing_property_issue name g p' baseline current)
     \<noteq> vi_severity (optionality_issue name2 f bp p baseline2 current2)"
    by (simp add: missing_property_issue_def optionality_issue_def)
  then show "missing_property_issue name g p' baseline current
     \<noteq> optionality_issue name2 f bp p baseline2 current2" by auto
  have "vi_severity (type_mismatch_issue name g bp' p' baseline current)
     \<noteq> vi_severity (optionality_issue name2 f bp p baseline2 current2)"
    by (simp add: type_mismatch_issue_def optionality_issue_def)
  then show "type_mismatch_issue name g bp' p' baseline current
     \<noteq> optionality_issue name2 f bp p baseline2 current2" by auto
qed

lemma concerns_not_about_other_field:
  assumes "concerns_baseline_field name baseline current i"
    and "f \<notin> prop_name ` set (td_properties (fst baseline))"
  shows "i \<noteq> missing_property_issue name f p baseline current
         \<and> i \<noteq> type_mismatch_issue name f bp p baseline current
         \<and> i \<noteq> optionality_issue name f bp p baseline current"
proof -
  from assms(1) obtain g p' bp' where g: "g \<in> prop_name ` set (td_properties (fst baseline))"
    and i: "i = missing_property_issue name g p' baseline current
            \<or> i = type_mismatch_issue name g bp' p' baseline current
            \<or> i = optionality_issue name g bp' p' baseline current"
    unfolding concerns_baseline_field_def by blast
  from g assms(2) have ne: "g \<noteq> f" by blast
  from i show ?thesis
  proof (elim disjE)
    assume "i = missing_property_issue name g p' baseline current"
    then show ?thesis
      using ne missing_property_issue_field [of name g p' baseline current f p]
        issue_forms_distinct(1) [of name g p' baseline current name f bp p baseline current]
        issue_forms_distinct(2) [of name g p' baseline current name f bp p baseline current]
      by metis
  next
    assume "i = type_mismatch_issue name g bp' p' baseline current"
    then show ?thesis
      using ne type_mismatch_issue_field [of name g bp' p' baseline current f bp p]
        issue_forms_distinct(1) [of name f p baseline current name g bp' p' baseline current]
        issue_forms_distinct(3) [of name g bp' p' baseline current name f bp p baseline current]
      by metis
  next
    assume "i = optionality_issue name g bp' p' baseline current"
    then show ?thesis
      using ne optionality_issue_field [of name g bp' p' baseline current f bp p]
        issue_forms_distinct(2) [of name f p baseline current name g bp' p' baseline current]
        issue_forms_distinct(3) [of name f bp p baseline current name g bp' p' baseline current]
      by metis
  qed
qed

lemma checkTypeShapeCompatibility_issue_cases:
  assumes "distinct (map fst (prim_types p))"
    and "i \<in> set (checkTypeShapeCompatibility contracts p)"
  shows "is_redefined_import_issue i
         \<or> (\<exists>name baseline rest current.
               filter (\<lambda>d. td_kind (fst d) = Interface) (definitions_of contracts p name)
                 = baseline # rest
               \<and> current \<in> set rest \<and> concerns_baseline_field name baseline current i)"
proof -
  from assms(2) have "i \<in> set (foldl compare_definitions [] (typesByName_of contracts p))
      \<or> i \<in> set (concat (map (\<lambda>c. concat (map (check_redefined_import p c [])
                      (pc_imports c))) contracts))"
    unfolding checkTypeShapeCompatibility_split by (simp only: set_append Un_iff)
  then show ?thesis
  proof
    assume "i \<in> set (foldl compare_definitions [] (typesByName_of contracts p))"
    with assms(1) show ?thesis by (intro disjI2 shape_part_concerns)
  next
    assume "i \<in> set (concat (map (\<lambda>c. concat (map (check_redefined_import p c [])
                      (pc_imports c))) contracts))"
    then obtain c imp where "i \<in> set (check_redefined_import p c [] imp)"
      by auto
    then have "is_redefined_import_issue i"
      unfolding check_redefined_import_eq by (rule first_declaration_conflicts_form)
    then show ?thesis by (rule disjI1)
  qed
qed

lemma missing_issue_in_result:
  assumes "distinct (map fst (prim_types primitives))"
    and "filter (\<lambda>d. td_kind (fst d) = Interface) (definitions_of contracts primitives name)
           = baseline # rest"
    and "current \<in> set rest"
    and "f \<in> prop_name ` set (td_properties (fst baseline))"
    and "f \<notin> prop_name ` set (td_properties (fst current))"
  shows "\<exists>p. missing_property_issue name f p baseline current
            \<in> set (checkTypeShapeCompatibility contracts primitives)"
proof -
  have ne: "definitions_of contracts primitives name \<noteq> []"
    using assms(2) by auto
  obtain p where "missing_property_issue name f p baseline current
            \<in> set (compare_definitions [] (name, definitions_of contracts primitives name))"
    using missing_in_compare_definitions [OF assms(2-5)] by blast
  then have "missing_property_issue name f p baseline current
            \<in> set (foldl compare_definitions [] (typesByName_of contracts primitives))"
    unfolding compare_loop_conv using typesByName_entry [OF assms(1) ne] by auto
  then have "missing_property_issue name f p baseline current
            \<in> set (checkTypeShapeCompatibility contracts primitives)"
    by (simp add: checkTypeShapeCompatibility_split)
  then show ?thesis by (rule exI)
qed

subsection \<open>Type shape compatibility: fields missing from a later declaration\<close>

text \<open>
  C2, as stated, fails.  \<open>contract_A\<close> declares \<open>UserRef\<close> with \<open>id\<close> and \<open>email\<close>; \<open>contract_B\<close>
  declares it with \<open>id\<close>, \<open>email\<close> and \<open>phone\<close>.  With \<open>contract_A\<close> first its declaration is
  the baseline, and the comparison reports nothing at all: a property that only the
  later declaration has is never looked for in the baseline.
\<close>

theorem extra_field_of_later_declaration_not_reported:
  "''phone'' \<in> prop_name ` set (td_properties userRef_long)
   \<and> ''phone'' \<notin> prop_name ` set (td_properties userRef_short)
   \<and> checkTypeShapeCompatibility [contract_A, contract_B] no_primitives = []"
  by code_simp

text \<open>
  C2, amended.  Let the structured records among the declarations of a name be \<open>baseline\<close>
  followed by \<open>rest\<close> (the shared vocabulary's declaration first, then the contracts' in
  order).  For every \<open>current\<close> in \<open>rest\<close> and every property name \<open>f\<close> of the baseline that
  \<open>current\<close> does not have, \<open>checkTypeShapeCompatibility\<close> emits an error of category
  type-shape whose message names \<open>f\<close>, filed under the document of \<open>current\<close>.  Conversely,
  every issue that \<open>checkTypeShapeCompatibility\<close> emits is a redefined-import issue or
  concerns a property of such a baseline: one that a later declaration lacks, or one
  that both declarations have with incompatible types or different optionality; and an
  issue that concerns a property of the baseline is none of the three issues about a
  name \<open>f\<close> that is not a property of the baseline.  So a property that only a later
  declaration has gives rise to no issue.  For the two
  \<open>UserRef\<close> declarations with \<open>contract_B\<close> first, the result is exactly one issue, the
  missing property \<open>phone\<close> filed under \<open>contract_A\<close>; with \<open>contract_A\<close> first, the result is
  empty.
\<close>

theorem missing_baseline_field_reported:
  assumes "distinct (map fst (prim_types primitives))"
  shows "(\<forall>name baseline rest current f.
            filter (\<lambda>d. td_kind (fst d) = Interface) (definitions_of contracts primitives name)
              = baseline # rest
            \<and> current \<in> set rest
            \<and> f \<in> prop_name ` set (td_properties (fst baseline))
            \<and> f \<notin> prop_name ` set (td_properties (fst current))
            \<longrightarrow> (\<exists>i. i \<in> set (checkTypeShapeCompatibility contracts primitives)
                   \<and> vi_severity i = Error \<and> vi_category i = TypeShape
                   \<and> vi_message i = ''Type '' @ [CHR 0x27] @ name @ [CHR 0x27]
                        @ '' is missing property '' @ [CHR 0x27] @ f @ [CHR 0x27]
                        @ '' in '' @ snd current
                   \<and> vi_file i = snd current \<and> vi_line i = Some (td_line (fst current))))
         \<and> (\<forall>i. i \<in> set (checkTypeShapeCompatibility contracts primitives)
              \<longrightarrow> is_redefined_import_issue i
                  \<or> (\<exists>name baseline rest current.
                        filter (\<lambda>d. td_kind (fst d) = Interface)
                            (definitions_of contracts primitives name)
                          = baseline # rest
                        \<and> current \<in> set rest
                        \<and> concerns_baseline_field name baseline current i))
         \<and> (\<forall>name baseline current i f p bp.
              concerns_baseline_field name baseline current i
              \<and> f \<notin> prop_name ` set (td_properties (fst baseline))
              \<longrightarrow> i \<noteq> missing_property_issue name f p baseline current
                  \<and> i \<noteq> type_mismatch_issue name f bp p baseline current
                  \<and> i \<noteq> optionality_issue name f bp p baseline current)
         \<and> checkTypeShapeCompatibility [contract_B, contract_A] no_primitives
             = [missing_property_issue ''UserRef'' ''phone'' phone_property
                  (userRef_long, ''B.md'') (userRef_short, ''A.md'')]
         \<and> checkTypeShapeCompatibility [contract_A, contract_B] no_primitives = []"
proof (intro conjI)
  show "\<forall>name baseline rest current f.
            filter (\<lambda>d. td_kind (fst d) = Interface) (definitions_of contracts primitives name)
              = baseline # rest
            \<and> current \<in> set rest
            \<and> f \<in> prop_name ` set (td_properties (fst baseline))
            \<and> f \<notin> prop_name ` set (td_properties (fst current))
            \<longrightarrow> (\<exists>i. i \<in> set (checkTypeShapeCompatibility contracts primitives)
                   \<and> vi_severity i = Error \<and> vi_category i = TypeShape
                   \<and> vi_message i = ''Type '' @ [CHR 0x27] @ name @ [CHR 0x27]
                        @ '' is missing property '' @ [CHR 0x27] @ f @ [CHR 0x27]
                        @ '' in '' @ snd current
                   \<and> vi_file i = snd current \<and> vi_line i = Some (td_line (fst current)))"
  proof (intro allI, rule impI)
    fix name baseline rest current f
    assume h: "filter (\<lambda>d. td_kind (fst d) = Interface)
                 (definitions_of contracts primitives name) = baseline # rest
            \<and> current \<in> set rest
            \<and> f \<in> prop_name ` set (td_properties (fst baseline))
            \<and> f \<notin> prop_name ` set (td_properties (fst current))"
    have "\<exists>p. missing_property_issue name f p baseline current
            \<in> set (checkTypeShapeCompatibility contracts primitives)"
      using h by (intro missing_issue_in_result [OF assms, of _ _ _ rest]) simp_all
    then obtain p where "missing_property_issue name f p baseline current
            \<in> set (checkTypeShapeCompatibility contracts primitives)" ..
    then show "\<exists>i. i \<in> set (checkTypeShapeCompatibility contracts primitives)
                   \<and> vi_severity i = Error \<and> vi_category i = TypeShape
                   \<and> vi_message i = ''Type '' @ [CHR 0x27] @ name @ [CHR 0x27]
                        @ '' is missing property '' @ [CHR 0x27] @ f @ [CHR 0x27]
                        @ '' in '' @ snd current
                   \<and> vi_file i = snd current \<and> vi_line i = Some (td_line (fst current))"
      by (intro exI [of _ "missing_property_issue name f p baseline current"])
         (simp add: missing_property_issue_def)
  qed
next
  show "\<forall>i. i \<in> set (checkTypeShapeCompatibility contracts primitives)
              \<longrightarrow> is_redefined_import_issue i
                  \<or> (\<exists>name baseline rest current.
                        filter (\<lambda>d. td_kind (fst d) = Interface)
                            (definitions_of contracts primitives name)
                          = baseline # rest
                        \<and> current \<in> set rest
                        \<and> concerns_baseline_field name baseline current i)"
    using checkTypeShapeCompatibility_issue_cases [OF assms] by (intro allI impI)
next
  show "\<forall>name baseline current i f p bp.
              concerns_baseline_field name baseline current i
              \<and> f \<notin> prop_name ` set (td_properties (fst baseline))
              \<longrightarrow> i \<noteq> missing_property_issue name f p baseline current
                  \<and> i \<noteq> type_mismatch_issue name f bp p baseline current
                  \<and> i \<noteq> optionality_issue name f bp p baseline current"
  proof (intro allI, rule impI)
    fix name baseline current i f p bp
    assume h: "concerns_baseline_field name baseline current i
              \<and> f \<notin> prop_name ` set (td_properties (fst baseline))"
    show "i \<noteq> missing_property_issue name f p baseline current
                  \<and> i \<noteq> type_mismatch_issue name f bp p baseline current
                  \<and> i \<noteq> optionality_issue name f bp p baseline current"
      using h [THEN conjunct1] h [THEN conjunct2] by (rule concerns_not_about_other_field)
  qed
next
  show "checkTypeShapeCompatibility [contract_B, contract_A] no_primitives
             = [missing_property_issue ''UserRef'' ''phone'' phone_property
                  (userRef_long, ''B.md'') (userRef_short, ''A.md'')]"
    by code_simp
next
  show "checkTypeShapeCompatibility [contract_A, contract_B] no_primitives = []"
    by code_simp
qed

text \<open>
  The theorem at the two \<open>UserRef\<close> declarations with \<open>contract_B\<close> first: the baseline is
  \<open>contract_B\<close>'s declaration, \<open>phone\<close> is missing from \<open>contract_A\<close>'s, and the one issue of
  the result concerns a property of the baseline, so that it is no issue about \<open>fax\<close>, which
  the baseline does not have.
\<close>

theorem missing_baseline_field_reported_witness:
  "distinct (map fst (prim_types no_primitives))
   \<and> filter (\<lambda>d. td_kind (fst d) = Interface)
        (definitions_of [contract_B, contract_A] no_primitives ''UserRef'')
       = (userRef_long, ''B.md'') # [(userRef_short, ''A.md'')]
   \<and> (userRef_short, ''A.md'') \<in> set [(userRef_short, ''A.md'')]
   \<and> ''phone'' \<in> prop_name ` set (td_properties (fst (userRef_long, ''B.md'')))
   \<and> ''phone'' \<notin> prop_name ` set (td_properties (fst (userRef_short, ''A.md'')))
   \<and> (\<exists>i. i \<in> set (checkTypeShapeCompatibility [contract_B, contract_A] no_primitives)
           \<and> vi_severity i = Error \<and> vi_category i = TypeShape
           \<and> vi_message i = ''Type '' @ [CHR 0x27] @ ''UserRef'' @ [CHR 0x27]
                      @ '' is missing property '' @ [CHR 0x27] @ ''phone'' @ [CHR 0x27]
                      @ '' in '' @ snd (userRef_short, ''A.md'')
           \<and> vi_file i = snd (userRef_short, ''A.md'')
           \<and> vi_line i = Some (td_line (fst (userRef_short, ''A.md''))))
   \<and> missing_property_issue ''UserRef'' ''phone'' phone_property
          (userRef_long, ''B.md'') (userRef_short, ''A.md'')
        \<in> set (checkTypeShapeCompatibility [contract_B, contract_A] no_primitives)
   \<and> (is_redefined_import_issue
          (missing_property_issue ''UserRef'' ''phone'' phone_property
             (userRef_long, ''B.md'') (userRef_short, ''A.md''))
        \<or> (\<exists>name baseline rest current.
              filter (\<lambda>d. td_kind (fst d) = Interface)
                  (definitions_of [contract_B, contract_A] no_primitives name)
                = baseline # rest
              \<and> current \<in> set rest
              \<and> concerns_baseline_field name baseline current
                  (missing_property_issue ''UserRef'' ''phone'' phone_property
                     (userRef_long, ''B.md'') (userRef_short, ''A.md''))))
   \<and> concerns_baseline_field ''UserRef'' (userRef_long, ''B.md'') (userRef_short, ''A.md'')
        (missing_property_issue ''UserRef'' ''phone'' phone_property
           (userRef_long, ''B.md'') (userRef_short, ''A.md''))
   \<and> ''fax'' \<notin> prop_name ` set (td_properties (fst (userRef_long, ''B.md'')))
   \<and> missing_property_issue ''UserRef'' ''phone'' phone_property
          (userRef_long, ''B.md'') (userRef_short, ''A.md'')
        \<noteq> missing_property_issue ''UserRef'' ''fax'' phone_property
            (userRef_long, ''B.md'') (userRef_short, ''A.md'')
   \<and> missing_property_issue ''UserRef'' ''phone'' phone_property
          (userRef_long, ''B.md'') (userRef_short, ''A.md'')
        \<noteq> type_mismatch_issue ''UserRef'' ''fax'' phone_property phone_property
            (userRef_long, ''B.md'') (userRef_short, ''A.md'')
   \<and> missing_property_issue ''UserRef'' ''phone'' phone_property
          (userRef_long, ''B.md'') (userRef_short, ''A.md'')
        \<noteq> optionality_issue ''UserRef'' ''fax'' phone_property phone_property
            (userRef_long, ''B.md'') (userRef_short, ''A.md'')"
proof -
  have h1: "distinct (map fst (prim_types no_primitives))"
    by (simp add: no_primitives_def)
  have h2: "filter (\<lambda>d. td_kind (fst d) = Interface)
              (definitions_of [contract_B, contract_A] no_primitives ''UserRef'')
            = (userRef_long, ''B.md'') # [(userRef_short, ''A.md'')]"
    by code_simp
  have h3: "(userRef_short, ''A.md'') \<in> set [(userRef_short, ''A.md'')]"
    by simp
  have h4: "''phone'' \<in> prop_name ` set (td_properties (fst (userRef_long, ''B.md'')))"
    by (simp add: userRef_long_def phone_property_def)
  have h5: "''phone'' \<notin> prop_name ` set (td_properties (fst (userRef_short, ''A.md'')))"
    by (simp add: userRef_short_def)
  note main = missing_baseline_field_reported [of no_primitives "[contract_B, contract_A]", OF h1]
  have pos: "\<exists>i. i \<in> set (checkTypeShapeCompatibility [contract_B, contract_A] no_primitives)
           \<and> vi_severity i = Error \<and> vi_category i = TypeShape
           \<and> vi_message i = ''Type '' @ [CHR 0x27] @ ''UserRef'' @ [CHR 0x27]
                      @ '' is missing property '' @ [CHR 0x27] @ ''phone'' @ [CHR 0x27]
                      @ '' in '' @ snd (userRef_short, ''A.md'')
           \<and> vi_file i = snd (userRef_short, ''A.md'')
           \<and> vi_line i = Some (td_line (fst (userRef_short, ''A.md'')))"
    using main [THEN conjunct1, THEN spec, THEN spec, THEN spec, THEN spec, THEN spec, THEN mp,
            OF conjI [OF h2 conjI [OF h3 conjI [OF h4 h5]]]] .
  have r: "checkTypeShapeCompatibility [contract_B, contract_A] no_primitives
             = [missing_property_issue ''UserRef'' ''phone'' phone_property
                  (userRef_long, ''B.md'') (userRef_short, ''A.md'')]"
    using main [THEN conjunct2, THEN conjunct2, THEN conjunct2, THEN conjunct1] .
  have mem: "missing_property_issue ''UserRef'' ''phone'' phone_property
          (userRef_long, ''B.md'') (userRef_short, ''A.md'')
        \<in> set (checkTypeShapeCompatibility [contract_B, contract_A] no_primitives)"
    unfolding r by simp
  have only: "is_redefined_import_issue
          (missing_property_issue ''UserRef'' ''phone'' phone_property
             (userRef_long, ''B.md'') (userRef_short, ''A.md''))
        \<or> (\<exists>name baseline rest current.
              filter (\<lambda>d. td_kind (fst d) = Interface)
                  (definitions_of [contract_B, contract_A] no_primitives name)
                = baseline # rest
              \<and> current \<in> set rest
              \<and> concerns_baseline_field name baseline current
                  (missing_property_issue ''UserRef'' ''phone'' phone_property
                     (userRef_long, ''B.md'') (userRef_short, ''A.md'')))"
    using main [THEN conjunct2, THEN conjunct1, THEN spec, THEN mp, OF mem] .
  have c: "concerns_baseline_field ''UserRef'' (userRef_long, ''B.md'') (userRef_short, ''A.md'')
        (missing_property_issue ''UserRef'' ''phone'' phone_property
           (userRef_long, ''B.md'') (userRef_short, ''A.md''))"
    unfolding concerns_baseline_field_def
    by (rule exI [of _ "''phone''"], rule exI [of _ phone_property],
        rule exI [of _ phone_property])
       (simp add: userRef_long_def userRef_short_def phone_property_def)
  have nf: "''fax'' \<notin> prop_name ` set (td_properties (fst (userRef_long, ''B.md'')))"
    by (simp add: userRef_long_def phone_property_def)
  have other: "missing_property_issue ''UserRef'' ''phone'' phone_property
          (userRef_long, ''B.md'') (userRef_short, ''A.md'')
        \<noteq> missing_property_issue ''UserRef'' ''fax'' phone_property
            (userRef_long, ''B.md'') (userRef_short, ''A.md'')
   \<and> missing_property_issue ''UserRef'' ''phone'' phone_property
          (userRef_long, ''B.md'') (userRef_short, ''A.md'')
        \<noteq> type_mismatch_issue ''UserRef'' ''fax'' phone_property phone_property
            (userRef_long, ''B.md'') (userRef_short, ''A.md'')
   \<and> missing_property_issue ''UserRef'' ''phone'' phone_property
          (userRef_long, ''B.md'') (userRef_short, ''A.md'')
        \<noteq> optionality_issue ''UserRef'' ''fax'' phone_property phone_property
            (userRef_long, ''B.md'') (userRef_short, ''A.md'')"
    using main [THEN conjunct2, THEN conjunct2, THEN conjunct1,
            THEN spec, THEN spec, THEN spec, THEN spec, THEN spec, THEN spec, THEN spec,
            THEN mp, OF conjI [OF c nf]] .
  show ?thesis
    by (intro conjI h1 h2 h3 h4 h5 pos mem only c nf
          other [THEN conjunct1] other [THEN conjunct2, THEN conjunct1]
          other [THEN conjunct2, THEN conjunct2])
qed

subsection \<open>Type shape compatibility: imported names declared again\<close>




subsection \<open>The edit distance is symmetric\<close>

lemma edit_rec_Nil2: "edit_rec xs [] = length xs"
  by (cases xs) simp_all

lemma edit_rec_sym: "edit_rec xs ys = edit_rec ys xs"
  by (induction xs ys rule: edit_rec.induct)
     (auto simp: edit_rec_Nil2 min.commute min.left_commute)

lemma upt_0_1: "[0..<Suc 0] = [0]"
  by simp

lemma prefix_dist_0_left: "prefix_dist a b 0 j = min j (length a)"
  by (simp add: prefix_dist_def min.commute)

lemma prefix_dist_0_right: "prefix_dist a b i 0 = min i (length b)"
  by (simp add: prefix_dist_def edit_rec_Nil2 min.commute)

lemma rev_take_Suc: "i < length xs \<Longrightarrow> rev (take (Suc i) xs) = xs ! i # rev (take i xs)"
  by (simp add: take_Suc_conv_app_nth)

lemma prefix_dist_step:
  assumes "i < length b" "j < length a"
  shows "prefix_dist a b (Suc i) (Suc j) =
     (if b ! i = a ! j then prefix_dist a b i j
      else min (prefix_dist a b i j + 1)
             (min (prefix_dist a b (Suc i) j + 1) (prefix_dist a b i (Suc j) + 1)))"
  using assms by (simp add: prefix_dist_def rev_take_Suc)

lemma init_cols_upt:
  assumes "0 < length m" "m ! 0 = [0..<j]" "0 < j" "j \<le> n"
  shows "init_cols [j..<n] m = m[0 := [0..<n]]"
  using assms
proof (induction "n - j" arbitrary: j m)
  case 0
  then have "j = n" by simp
  moreover have "m[0 := m ! 0] = m" by (rule list_update_id)
  ultimately show ?case using 0 by simp
next
  case (Suc k)
  then have lt: "j < n" by simp
  have "init_cols [j..<n] m = init_cols [Suc j..<n] (m[0 := arr_set (m ! 0) j j])"
    using lt by (simp add: upt_conv_Cons)
  also have "arr_set (m ! 0) j j = [0..<Suc j]"
    using Suc.prems by (simp add: arr_set_def)
  also have "init_cols [Suc j..<n] (m[0 := [0..<Suc j]]) = (m[0 := [0..<Suc j]])[0 := [0..<n]]"
    using Suc.prems Suc.hyps(2) lt by (intro Suc.hyps(1)) simp_all
  finally show ?case by simp
qed

lemma init_cols_rows_done:
  "init_cols [0..<length a + 1] (map (\<lambda>i. [i]) [0..<length b + 1]) = rows_done a b 1"
proof -
  let ?m0 = "map (\<lambda>i. [i]) [0..<length b + 1]"
  have first: "?m0 ! 0 = [0]"
    by (simp add: nth_map_upt del: upt_Suc)
  have "[0..<length a + 1] = 0 # [1..<length a + 1]"
    by (simp add: upt_conv_Cons del: upt_Suc)
  then have "init_cols [0..<length a + 1] ?m0
          = init_cols [1..<length a + 1] (?m0[0 := arr_set (?m0 ! 0) 0 0])"
    by simp
  also have "?m0[0 := arr_set (?m0 ! 0) 0 0] = ?m0"
    using first by (simp add: arr_set_def list_update_same_conv del: upt_Suc)
  also have "init_cols [1..<length a + 1] ?m0 = ?m0[0 := [0..<length a + 1]]"
    by (rule init_cols_upt) (simp_all add: first upt_0_1 del: upt_Suc)
  also have "\<dots> = rows_done a b 1"
    unfolding rows_done_def
    by (rule nth_equalityI)
       (auto simp: nth_list_update nth_map_upt prefix_dist_0_left map_idI
             simp del: upt_Suc intro!: nth_equalityI)
  finally show ?thesis .
qed

lemma length_rows_done [simp]: "length (rows_done a b i0) = length b + 1"
  by (simp add: rows_done_def del: upt_Suc)

lemma rows_done_nth:
  "i \<le> length b \<Longrightarrow> rows_done a b i0 ! i =
     (if i < i0 then map (prefix_dist a b i) [0..<length a + 1] else [i])"
  unfolding rows_done_def by (simp add: nth_map_upt del: upt_Suc)

lemma row_partial_nth_same:
  "i \<le> length b \<Longrightarrow> row_partial a b i j ! i = map (prefix_dist a b i) [0..<j]"
  by (simp add: row_partial_def)

lemma row_partial_nth_prev:
  "i \<le> length b \<Longrightarrow> 0 < i \<Longrightarrow> row_partial a b i j ! (i - 1)
     = map (prefix_dist a b (i - 1)) [0..<length a + 1]"
  by (simp add: row_partial_def rows_done_nth del: upt_Suc)

lemma lev_cell_row_partial:
  assumes "0 < i" "i \<le> length b" "0 < j" "j \<le> length a"
  shows "lev_cell a b (row_partial a b i j) i j = prefix_dist a b i j"
proof -
  obtain i' j' where ij: "i = Suc i'" "j = Suc j'"
    using assms by (metis Suc_pred)
  have bounds: "i' < length b" "j' < length a"
    using assms ij by simp_all
  have prev: "row_partial a b i j ! i' = map (prefix_dist a b i') [0..<length a + 1]"
    using row_partial_nth_prev [of i b a j] assms ij by simp
  have same: "row_partial a b i j ! i = map (prefix_dist a b i) [0..<j]"
    using row_partial_nth_same assms by simp
  have c1: "row_partial a b i j ! i' ! j' = prefix_dist a b i' j'"
    unfolding prev using bounds by (simp add: nth_map_upt del: upt_Suc)
  have c2: "row_partial a b i j ! i ! j' = prefix_dist a b i j'"
    unfolding same using ij by (simp add: nth_map_upt del: upt_Suc)
  have c3: "row_partial a b i j ! i' ! j = prefix_dist a b i' j"
    unfolding prev using assms by (simp add: nth_map_upt del: upt_Suc)
  show ?thesis
    using c1 c2 c3 prefix_dist_step [OF bounds] ij
    by (simp add: lev_cell_def)
qed

lemma row_partial_step:
  assumes "0 < i" "i \<le> length b" "0 < j" "j \<le> length a"
  shows "(row_partial a b i j)[i := arr_set (row_partial a b i j ! i) j
            (lev_cell a b (row_partial a b i j) i j)]
         = row_partial a b i (Suc j)"
proof -
  have "arr_set (row_partial a b i j ! i) j (lev_cell a b (row_partial a b i j) i j)
          = map (prefix_dist a b i) [0..<Suc j]"
    using assms by (simp add: row_partial_nth_same lev_cell_row_partial arr_set_def)
  then show ?thesis
    by (simp add: row_partial_def)
qed

lemma fill_row_partial:
  assumes "0 < i" "i \<le> length b" "0 < j" "j \<le> length a + 1"
  shows "fill_row a b i [j..<length a + 1] (row_partial a b i j)
           = row_partial a b i (length a + 1)"
  using assms
proof (induction "length a + 1 - j" arbitrary: j)
  case 0
  then have "j = length a + 1" by simp
  then show ?case by simp
next
  case (Suc k)
  then have lt: "j \<le> length a" by simp
  then have "fill_row a b i [j..<length a + 1] (row_partial a b i j)
        = fill_row a b i [Suc j..<length a + 1]
            ((row_partial a b i j)[i := arr_set (row_partial a b i j ! i) j
               (lev_cell a b (row_partial a b i j) i j)])"
    by (simp add: upt_conv_Cons del: upt_Suc)
  also have "\<dots> = fill_row a b i [Suc j..<length a + 1] (row_partial a b i (Suc j))"
    using row_partial_step [OF Suc.prems(1,2,3) lt] by simp
  also have "\<dots> = row_partial a b i (length a + 1)"
    using Suc.hyps(2) Suc.prems lt by (intro Suc.hyps(1)) simp_all
  finally show ?case .
qed

lemma row_partial_start: "i \<le> length b \<Longrightarrow> row_partial a b i (Suc 0) = rows_done a b i"
  unfolding row_partial_def
  by (simp add: list_update_same_conv rows_done_nth prefix_dist_0_right upt_0_1 del: upt_Suc)

lemma row_partial_end:
  "i \<le> length b \<Longrightarrow> row_partial a b i (Suc (length a)) = rows_done a b (Suc i)"
  unfolding row_partial_def
  by (rule nth_equalityI) (auto simp: nth_list_update rows_done_nth simp del: upt_Suc)

lemma fill_row_rows_done:
  assumes "0 < i" "i \<le> length b"
  shows "fill_row a b i [1..<length a + 1] (rows_done a b i) = rows_done a b (Suc i)"
  using fill_row_partial [OF assms, of 1 a] assms
  by (simp add: row_partial_start row_partial_end del: upt_Suc)

lemma fill_rows_rows_done:
  assumes "0 < i" "i \<le> length b + 1"
  shows "fill_rows a b [i..<length b + 1] (rows_done a b i) = rows_done a b (length b + 1)"
  using assms
proof (induction "length b + 1 - i" arbitrary: i)
  case 0
  then have "i = length b + 1" by simp
  then show ?case by simp
next
  case (Suc k)
  then have lt: "i \<le> length b" by simp
  then have "fill_rows a b [i..<length b + 1] (rows_done a b i)
        = fill_rows a b [Suc i..<length b + 1]
            (fill_row a b i [1..<length a + 1] (rows_done a b i))"
    by (simp add: upt_conv_Cons del: upt_Suc)
  also have "\<dots> = fill_rows a b [Suc i..<length b + 1] (rows_done a b (Suc i))"
    using fill_row_rows_done [OF Suc.prems(1) lt] by simp
  also have "\<dots> = rows_done a b (length b + 1)"
    using Suc.hyps(2) lt by (intro Suc.hyps(1)) simp_all
  finally show ?case .
qed

lemma levenshteinDistance_edit_rec:
  "levenshteinDistance a b = edit_rec (rev b) (rev a)"
proof -
  have "levenshteinDistance a b = rows_done a b (length b + 1) ! length b ! length a"
    unfolding levenshteinDistance_def init_cols_rows_done
    using fill_rows_rows_done [of 1 b a] by simp
  also have "\<dots> = prefix_dist a b (length b) (length a)"
    by (simp add: rows_done_nth nth_map_upt del: upt_Suc)
  finally show ?thesis by (simp add: prefix_dist_def)
qed

lemma levenshteinDistance_sym: "levenshteinDistance a b = levenshteinDistance b a"
  by (simp add: levenshteinDistance_edit_rec edit_rec_sym [of "rev b"])

lemma similarityRatio_sym: "similarityRatio a b = similarityRatio b a"
  by (simp add: similarityRatio_def levenshteinDistance_sym [of a b] max.commute)

subsection \<open>The pairs that findSimilarNames reports\<close>

lemma uniqueNames_loop:
  "distinct acc \<Longrightarrow>
   distinct (foldl (\<lambda>acc n. if n \<in> set acc then acc else acc @ [n]) acc names)
   \<and> set (foldl (\<lambda>acc n. if n \<in> set acc then acc else acc @ [n]) acc names)
       = set acc \<union> set names"
  by (induction names arbitrary: acc) auto

lemma distinct_uniqueNames: "distinct (uniqueNames_of names)"
  using uniqueNames_loop [of "[]" names] by (simp add: uniqueNames_of_def)

lemma set_uniqueNames: "set (uniqueNames_of names) = set names"
  using uniqueNames_loop [of "[]" names] by (simp add: uniqueNames_of_def)

lemma similar_step_pair_step:
  "similar_step th U i st j = pair_step th st (U ! i, U ! j)"
  by (cases st)
     (simp add: similar_step_def pair_step_def candidate_def triple_of_def name_ratio_def Let_def)

lemma map_nth_upt_drop: "map ((!) xs) [k..<length xs] = drop k xs"
proof -
  have "drop k xs = drop k (map ((!) xs) [0..<length xs])"
    by (simp add: map_nth)
  also have "\<dots> = map ((!) xs) [k..<length xs]"
    by (simp add: drop_map del: upt_Suc)
  finally show ?thesis by simp
qed

lemma similar_outer_pairs:
  assumes "k < length U"
  shows "similar_outer th U st k = foldl (pair_step th) st (map (Pair (U ! k)) (drop (Suc k) U))"
proof -
  have "map (Pair (U ! k)) (drop (Suc k) U) = map (\<lambda>j. (U ! k, U ! j)) [Suc k..<length U]"
    unfolding map_nth_upt_drop [symmetric] by (simp del: upt_Suc)
  moreover have "foldl (similar_step th U k) s js = foldl (pair_step th) s (map (\<lambda>j. (U ! k, U ! j)) js)"
    for s js
    by (induction js arbitrary: s) (simp_all add: similar_step_pair_step)
  ultimately show ?thesis
    by (simp add: similar_outer_def del: upt_Suc)
qed

lemma similar_loops_pairs:
  "k \<le> length U \<Longrightarrow>
   foldl (similar_outer th U) st [k..<length U] = foldl (pair_step th) st (pairs_of (drop k U))"
proof (induction "length U - k" arbitrary: k st)
  case 0
  then show ?case by simp
next
  case (Suc n)
  then have lt: "k < length U" by simp
  have dr: "drop k U = U ! k # drop (Suc k) U"
    using lt by (simp add: Cons_nth_drop_Suc)
  have "foldl (similar_outer th U) st [k..<length U]
          = foldl (similar_outer th U) (similar_outer th U st k) [Suc k..<length U]"
    using lt by (simp add: upt_conv_Cons del: upt_Suc)
  also have "\<dots> = foldl (pair_step th) (similar_outer th U st k) (pairs_of (drop (Suc k) U))"
    using Suc.hyps(2) lt by (intro Suc.hyps(1)) simp_all
  finally show ?case
    by (simp add: dr similar_outer_pairs [OF lt])
qed

lemma findSimilarNames_pairs:
  "findSimilarNames names th
     = fst (foldl (pair_step th) ([], {}) (pairs_of (uniqueNames_of names)))"
  using similar_loops_pairs [of 0 "uniqueNames_of names" th "([], {})"]
  by (simp add: findSimilarNames_def Let_def del: upt_Suc)

lemma append_char_split:
  "c \<notin> set x \<Longrightarrow> c \<notin> set x' \<Longrightarrow> x @ c # y = x' @ c # y' \<Longrightarrow> x = x' \<and> y = y'"
proof (induction x arbitrary: x')
  case Nil
  then show ?case by (cases x') auto
next
  case (Cons a x)
  then show ?case by (cases x') auto
qed

lemma pairKey_of_cases:
  "pairKey_of x y = x @ CHR ''|'' # y \<or> pairKey_of x y = y @ CHR ''|'' # x"
  by (simp add: pairKey_of_def)

lemma pairKey_inj:
  assumes "CHR ''|'' \<notin> set x" "CHR ''|'' \<notin> set y" "CHR ''|'' \<notin> set x'" "CHR ''|'' \<notin> set y'"
    and "pairKey_of x y = pairKey_of x' y'"
  shows "(x = x' \<and> y = y') \<or> (x = y' \<and> y = x')"
proof -
  obtain u v where uv: "pairKey_of x y = u @ CHR ''|'' # v" "(u = x \<and> v = y) \<or> (u = y \<and> v = x)"
    using pairKey_of_cases [of x y] by blast
  obtain u' v' where uv': "pairKey_of x' y' = u' @ CHR ''|'' # v'"
      "(u' = x' \<and> v' = y') \<or> (u' = y' \<and> v' = x')"
    using pairKey_of_cases [of x' y'] by blast
  have "CHR ''|'' \<notin> set u" "CHR ''|'' \<notin> set u'"
    using uv(2) uv'(2) assms(1-4) by blast+
  moreover have "u @ CHR ''|'' # v = u' @ CHR ''|'' # v'"
    using uv(1) uv'(1) assms(5) by simp
  ultimately have "u = u' \<and> v = v'"
    by (rule append_char_split)
  then show ?thesis
    using uv(2) uv'(2) by blast
qed

lemma pairs_of_set:
  "(x, y) \<in> set (pairs_of xs) \<Longrightarrow> x \<in> set xs \<and> y \<in> set xs"
  by (induction xs) auto

lemma pairs_of_distinct:
  "distinct xs \<Longrightarrow> distinct (pairs_of xs)"
  by (induction xs) (auto simp: distinct_map inj_on_def dest: pairs_of_set)

lemma pairs_of_irrefl:
  "distinct xs \<Longrightarrow> (x, y) \<in> set (pairs_of xs) \<Longrightarrow> x \<noteq> y"
  by (induction xs) (auto dest: pairs_of_set)

lemma pairs_of_asym:
  "distinct xs \<Longrightarrow> (x, y) \<in> set (pairs_of xs) \<Longrightarrow> (y, x) \<notin> set (pairs_of xs)"
  by (induction xs) (auto dest: pairs_of_set)

lemma pairs_of_total:
  "x \<in> set xs \<Longrightarrow> y \<in> set xs \<Longrightarrow> x \<noteq> y
     \<Longrightarrow> (x, y) \<in> set (pairs_of xs) \<or> (y, x) \<in> set (pairs_of xs)"
  by (induction xs) auto

lemma pair_loop:
  assumes "distinct (map key_of P)" "seen \<inter> key_of ` set P = {}" "\<forall>p \<in> set P. fst p \<noteq> snd p"
  shows "fst (foldl (pair_step th) (sim, seen) P) = sim @ map triple_of (filter (candidate th) P)"
  using assms
proof (induction P arbitrary: sim seen)
  case Nil
  then show ?case by simp
next
  case (Cons p P)
  have notseen: "pairKey_of (fst p) (snd p) \<notin> seen"
    using Cons.prems(2) by (auto simp: key_of_def)
  have ne: "fst p \<noteq> snd p" using Cons.prems(3) by simp
  show ?case
  proof (cases "candidate th p")
    case True
    then have step: "pair_step th (sim, seen) p
        = (sim @ [triple_of p], insert (key_of p) seen)"
      using notseen ne by (simp add: pair_step_def key_of_def)
    have "insert (key_of p) seen \<inter> key_of ` set P = {}"
      using Cons.prems(1,2) by auto
    then show ?thesis
      using Cons.IH [of "insert (key_of p) seen" "sim @ [triple_of p]"] Cons.prems True
      by (simp add: step)
  next
    case False
    then have step: "pair_step th (sim, seen) p = (sim, seen)"
      by (simp add: pair_step_def)
    have "seen \<inter> key_of ` set P = {}"
      using Cons.prems(2) by auto
    then show ?thesis
      using Cons.IH [of seen sim] Cons.prems False by (simp add: step)
  qed
qed

lemma distinct_keys:
  assumes "distinct U" "\<forall>n \<in> set U. CHR ''|'' \<notin> set n"
  shows "distinct (map key_of (pairs_of U))"
proof -
  have "inj_on key_of (set (pairs_of U))"
  proof (rule inj_onI)
    fix p q assume p: "p \<in> set (pairs_of U)" and q: "q \<in> set (pairs_of U)"
      and eq: "key_of p = key_of q"
    obtain x y x' y' where pq: "p = (x, y)" "q = (x', y')" by (cases p, cases q) auto
    have mem: "x \<in> set U" "y \<in> set U" "x' \<in> set U" "y' \<in> set U"
      using p q pq by (auto dest: pairs_of_set)
    then have "(x = x' \<and> y = y') \<or> (x = y' \<and> y = x')"
      using pairKey_inj [of x y x' y'] assms(2) eq pq by (simp add: key_of_def)
    then show "p = q"
      using pairs_of_asym [OF assms(1)] p q pq by auto
  qed
  then show ?thesis
    using pairs_of_distinct [OF assms(1)] by (simp add: distinct_map)
qed

lemma findSimilarNames_exact:
  assumes "\<forall>n \<in> set names. CHR ''|'' \<notin> set n"
  shows "findSimilarNames names th
           = map triple_of (filter (candidate th) (pairs_of (uniqueNames_of names)))"
proof -
  let ?U = "uniqueNames_of names"
  have "distinct (map key_of (pairs_of ?U))"
    using distinct_keys [OF distinct_uniqueNames] assms by (simp add: set_uniqueNames)
  moreover have "\<forall>p \<in> set (pairs_of ?U). fst p \<noteq> snd p"
    using pairs_of_irrefl [OF distinct_uniqueNames] by auto
  ultimately show ?thesis
    using pair_loop [of "pairs_of ?U" "{}" th "[]"] by (simp add: findSimilarNames_pairs)
qed

subsection \<open>The warnings of checkNamingConsistency\<close>

lemma allTypeNames_names:
  "map tn_name (allTypeNames_of contracts primitives)
     = map fst (prim_types primitives) @ concat (map (\<lambda>c. map td_name (pc_types c)) contracts)"
proof -
  have prims: "foldl (\<lambda>acc (name, t). acc @ [\<lparr> tn_name = name, tn_file = f, tn_line = td_line t \<rparr>])
                 acc ps
               = acc @ concat (map (\<lambda>(name, t). [\<lparr> tn_name = name, tn_file = f,
                                                      tn_line = td_line t \<rparr>]) ps)" for acc ps f
    by (rule foldl_append_conv) (simp add: split_beta)
  have inner: "foldl (\<lambda>acc t. acc @ [\<lparr> tn_name = td_name t, tn_file = f, tn_line = td_line t \<rparr>])
                 acc ts
               = acc @ concat (map (\<lambda>t. [\<lparr> tn_name = td_name t, tn_file = f,
                                               tn_line = td_line t \<rparr>]) ts)" for acc ts f
    by (rule foldl_append_conv) simp
  have outer: "foldl (\<lambda>acc contract.
              foldl (\<lambda>acc t. acc @ [\<lparr> tn_name = td_name t, tn_file = pc_filePath contract,
                                       tn_line = td_line t \<rparr>])
                acc (pc_types contract)) acc cs
          = acc @ concat (map (\<lambda>c. concat (map (\<lambda>t. [\<lparr> tn_name = td_name t,
                 tn_file = pc_filePath c, tn_line = td_line t \<rparr>]) (pc_types c))) cs)" for acc cs
    unfolding inner by (rule foldl_append_conv) simp
  show ?thesis
    unfolding allTypeNames_of_def outer prims by (simp add: map_concat comp_def split_beta)
qed

lemma set_allTypeNames_names:
  "set (map tn_name (allTypeNames_of contracts primitives)) = declared_names contracts primitives"
  unfolding allTypeNames_names declared_names_def by auto

lemma find_name_Some:
  "n \<in> tn_name ` set entries \<Longrightarrow> \<exists>t. find (\<lambda>t. tn_name t = n) entries = Some t"
  by (induction entries) auto

lemma similar_issue_step_append:
  "similar_issue_step entries acc s = acc @ similar_issue_step entries [] s"
  by (simp add: similar_issue_step_def split: prod.splits option.splits)

lemma similar_loop_conv:
  "foldl (similar_issue_step entries) [] sims = concat (map (similar_issue_step entries []) sims)"
  using foldl_append_conv [where f = "similar_issue_step entries"
          and g = "similar_issue_step entries []" and acc = "[]" and xs = sims,
          OF similar_issue_step_append]
  by simp

lemma not_word_bar: "\<not> is_word_char (CHR ''|'')"
  by code_simp

lemma not_word_quote: "\<not> is_word_char (CHR 0x27)"
  by code_simp

lemma identifier_no_bar: "is_identifier n \<Longrightarrow> CHR ''|'' \<notin> set n"
  using not_word_bar by (auto simp: is_identifier_def list_all_iff)

lemma identifier_no_quote: "is_identifier n \<Longrightarrow> CHR 0x27 \<notin> set n"
  using not_word_quote by (auto simp: is_identifier_def list_all_iff)

lemma similar_message_inj:
  assumes "CHR 0x27 \<notin> set x" "CHR 0x27 \<notin> set y" "CHR 0x27 \<notin> set a" "CHR 0x27 \<notin> set b"
    and "similar_message x y r = similar_message a b r'"
  shows "x = a \<and> y = b"
proof -
  from assms(5) have eq1: "x @ CHR 0x27 # ('' and '' @ [CHR 0x27] @ y @ [CHR 0x27] @ '' (''
                 @ show_int (math_round (r * 100)) @ ''% similar)'')
            = a @ CHR 0x27 # ('' and '' @ [CHR 0x27] @ b @ [CHR 0x27] @ '' (''
                 @ show_int (math_round (r' * 100)) @ ''% similar)'')"
    by (simp add: similar_message_def)
  have xa: "x = a" and rest: "'' and '' @ [CHR 0x27] @ y @ [CHR 0x27] @ '' (''
                 @ show_int (math_round (r * 100)) @ ''% similar)''
            = '' and '' @ [CHR 0x27] @ b @ [CHR 0x27] @ '' (''
                 @ show_int (math_round (r' * 100)) @ ''% similar)''"
    using append_char_split [OF assms(1,3) eq1] by blast+
  from rest have "y @ CHR 0x27 # ('' ('' @ show_int (math_round (r * 100)) @ ''% similar)'')
      = b @ CHR 0x27 # ('' ('' @ show_int (math_round (r' * 100)) @ ''% similar)'')"
    by simp
  then have "y = b"
    using append_char_split [OF assms(2,4)] by blast
  with xa show ?thesis by simp
qed

lemma orphan_not_similar:
  "\<not> is_similar_warning_for a b (orphan_ref_issue c t e)"
  by (simp add: is_similar_warning_for_def orphan_ref_issue_def similar_message_def)

lemma ref_step_filter:
  "filter (is_similar_warning_for a b) (fst (ref_step entries p c st t))
     = filter (is_similar_warning_for a b) (fst st)"
  by (cases st) (simp add: ref_step_def Let_def orphan_not_similar)

lemma ref_inner_filter:
  "filter (is_similar_warning_for a b) (fst (foldl (ref_step entries p c) st ts))
     = filter (is_similar_warning_for a b) (fst st)"
  by (induction ts arbitrary: st) (simp_all add: ref_step_filter)

lemma ref_outer_filter:
  "filter (is_similar_warning_for a b)
     (fst (foldl (\<lambda>st contract. foldl (ref_step entries p contract) st (pc_types contract)) st cs))
     = filter (is_similar_warning_for a b) (fst st)"
  by (induction cs arbitrary: st) (simp_all add: ref_inner_filter)

lemma pattern_loop_sym: "pattern_loop ps a b = pattern_loop ps b a"
  by (induction ps a b rule: pattern_loop.induct) auto

lemma isExpectedPair_sym: "isExpectedPair a b = isExpectedPair b a"
  by (auto simp: isExpectedPair_def Let_def pattern_loop_sym [of _ a b])

lemma name_ratio_sym: "name_ratio (a, b) = name_ratio (b, a)"
  by (simp add: name_ratio_def similarityRatio_sym [of "toLowerCase a"])

lemma candidate_sym: "candidate th (a, b) = candidate th (b, a)"
  by (simp add: candidate_def name_ratio_sym [of a b])

lemma count_in_distinct:
  "distinct P \<Longrightarrow> q \<in> set P \<Longrightarrow> length (filter (\<lambda>p. p = q \<and> Q) P) = (if Q then 1 else 0)"
  by (induction P) (auto simp: filter_empty_conv)

lemma similar_issue_of_pair:
  assumes "fst p \<in> tn_name ` set entries" "snd p \<in> tn_name ` set entries"
    and "is_identifier (fst p)" "is_identifier (snd p)" "is_identifier a" "is_identifier b"
  shows "length (filter (is_similar_warning_for a b) (similar_issue_step entries [] (triple_of p)))
       = (if (p = (a, b) \<or> p = (b, a)) \<and> \<not> isExpectedPair (fst p) (snd p) then 1 else 0)"
proof -
  obtain t1 where t1: "find (\<lambda>t. tn_name t = fst p) entries = Some t1"
    using find_name_Some [OF assms(1)] by blast
  obtain t2 where t2: "find (\<lambda>t. tn_name t = snd p) entries = Some t2"
    using find_name_Some [OF assms(2)] by blast
  have q: "CHR 0x27 \<notin> set (fst p)" "CHR 0x27 \<notin> set (snd p)" "CHR 0x27 \<notin> set a" "CHR 0x27 \<notin> set b"
    using assms(3-6) by (simp_all add: identifier_no_quote)
  have msg: "is_similar_warning_for a b (similar_names_issue (fst p) (snd p) r t1 t2)
               = (p = (a, b) \<or> p = (b, a))" for r
  proof
    assume "is_similar_warning_for a b (similar_names_issue (fst p) (snd p) r t1 t2)"
    then obtain r' where "similar_message (fst p) (snd p) r = similar_message a b r'
        \<or> similar_message (fst p) (snd p) r = similar_message b a r'"
      by (auto simp: is_similar_warning_for_def similar_names_issue_def)
    then have "(fst p = a \<and> snd p = b) \<or> (fst p = b \<and> snd p = a)"
      using similar_message_inj [OF q(1,2,3,4)] similar_message_inj [OF q(1,2,4,3)] by blast
    then show "p = (a, b) \<or> p = (b, a)"
      by (cases p) auto
  next
    assume "p = (a, b) \<or> p = (b, a)"
    then show "is_similar_warning_for a b (similar_names_issue (fst p) (snd p) r t1 t2)"
      by (auto simp: is_similar_warning_for_def similar_names_issue_def)
  qed
  show ?thesis
    by (simp add: similar_issue_step_def triple_of_def t1 t2 msg)
qed

lemma similar_issues_count:
  assumes "\<forall>p \<in> set Ps. fst p \<in> tn_name ` set entries \<and> snd p \<in> tn_name ` set entries
              \<and> is_identifier (fst p) \<and> is_identifier (snd p)"
    and "is_identifier a" "is_identifier b"
  shows "length (filter (is_similar_warning_for a b)
            (concat (map (similar_issue_step entries []) (map triple_of Ps))))
       = length (filter (\<lambda>p. (p = (a, b) \<or> p = (b, a)) \<and> \<not> isExpectedPair (fst p) (snd p)) Ps)"
  using assms(1)
proof (induction Ps)
  case Nil
  then show ?case by simp
next
  case (Cons p Ps)
  have "length (filter (is_similar_warning_for a b) (similar_issue_step entries [] (triple_of p)))
       = (if (p = (a, b) \<or> p = (b, a)) \<and> \<not> isExpectedPair (fst p) (snd p) then 1 else 0)"
    using Cons.prems assms(2,3) by (intro similar_issue_of_pair) simp_all
  then show ?case
    using Cons by simp
qed

lemma similar_warning_count:
  assumes ids: "\<forall>n \<in> declared_names contracts primitives. is_identifier n"
    and a: "a \<in> declared_names contracts primitives"
    and b: "b \<in> declared_names contracts primitives"
    and ne: "a \<noteq> b"
  shows "length (filter (is_similar_warning_for a b) (checkNamingConsistency contracts primitives))
       = (if candidate (85 / 100) (a, b) \<and> \<not> isExpectedPair a b then 1 else 0)"
proof -
  let ?entries = "allTypeNames_of contracts primitives"
  let ?names = "map tn_name ?entries"
  let ?U = "uniqueNames_of ?names"
  let ?P = "pairs_of ?U"
  let ?Pc = "filter (candidate (85 / 100)) ?P"
  have names: "set ?names = declared_names contracts primitives"
    by (rule set_allTypeNames_names)
  have setU: "set ?U = declared_names contracts primitives"
    by (simp only: set_uniqueNames names)
  have nobar: "\<forall>n \<in> set ?names. CHR ''|'' \<notin> set n"
    using ids names identifier_no_bar by blast
  have sim: "findSimilarNames ?names (85 / 100) = map triple_of ?Pc"
    by (rule findSimilarNames_exact [OF nobar])
  have mem: "\<forall>p \<in> set ?Pc. fst p \<in> tn_name ` set ?entries \<and> snd p \<in> tn_name ` set ?entries
              \<and> is_identifier (fst p) \<and> is_identifier (snd p)"
  proof
    fix p assume "p \<in> set ?Pc"
    then have "(fst p, snd p) \<in> set ?P" by simp
    then have "fst p \<in> set ?U \<and> snd p \<in> set ?U"
      by (rule pairs_of_set)
    then have "fst p \<in> set ?U" "snd p \<in> set ?U"
      by blast+
    then have "fst p \<in> declared_names contracts primitives"
        "snd p \<in> declared_names contracts primitives"
      using setU by simp_all
    then show "fst p \<in> tn_name ` set ?entries \<and> snd p \<in> tn_name ` set ?entries
              \<and> is_identifier (fst p) \<and> is_identifier (snd p)"
      using ids names by auto
  qed
  have ida: "is_identifier a" and idb: "is_identifier b"
    using ids a b by auto
  have dP: "distinct ?P"
    by (rule pairs_of_distinct [OF distinct_uniqueNames])
  have "length (filter (is_similar_warning_for a b) (checkNamingConsistency contracts primitives))
      = length (filter (is_similar_warning_for a b)
          (concat (map (similar_issue_step ?entries []) (map triple_of ?Pc))))"
    unfolding checkNamingConsistency_def Let_def ref_outer_filter sim similar_loop_conv by simp
  also have "\<dots> = length (filter (\<lambda>p. (p = (a, b) \<or> p = (b, a))
                                  \<and> \<not> isExpectedPair (fst p) (snd p)) ?Pc)"
    by (rule similar_issues_count [OF mem ida idb])
  also have "\<dots> = (if candidate (85 / 100) (a, b) \<and> \<not> isExpectedPair a b then 1 else 0)"
  proof -
    consider (ab) "(a, b) \<in> set ?P" "(b, a) \<notin> set ?P" | (ba) "(b, a) \<in> set ?P" "(a, b) \<notin> set ?P"
      using pairs_of_total [of a ?U b] pairs_of_asym [OF distinct_uniqueNames, of _ _ ?names]
            a b ne setU by blast
    then show ?thesis
    proof cases
      case ab
      have "filter (\<lambda>p. (p = (a, b) \<or> p = (b, a)) \<and> \<not> isExpectedPair (fst p) (snd p)) ?Pc
          = filter (\<lambda>p. p = (a, b) \<and> (candidate (85 / 100) (a, b) \<and> \<not> isExpectedPair a b)) ?P"
        using ab(2) by (auto intro!: filter_cong)
      then show ?thesis
        using count_in_distinct [OF dP ab(1)] by simp
    next
      case ba
      have "filter (\<lambda>p. (p = (a, b) \<or> p = (b, a)) \<and> \<not> isExpectedPair (fst p) (snd p)) ?Pc
          = filter (\<lambda>p. p = (b, a) \<and> (candidate (85 / 100) (b, a) \<and> \<not> isExpectedPair b a)) ?P"
        using ba(2) by (auto intro!: filter_cong)
      then show ?thesis
        using count_in_distinct [OF dP ba(1)]
        by (simp add: candidate_sym [of _ a b] isExpectedPair_sym [of a b])
    qed
  qed
  finally show ?thesis .
qed

text \<open>
  C6.  Let every declared name be an identifier, as the names the extractor captures with
  \<open>\w+\<close> are, and let \<open>a\<close> and \<open>b\<close> be two distinct declared names.  The number of
  similar-names warnings of \<open>checkNamingConsistency\<close> for the unordered pair of \<open>a\<close> and \<open>b\<close>
  (the message naming \<open>a\<close> and \<open>b\<close> in either order) is exactly one when the similarity of
  the lower-cased names is at least \<open>0.85\<close> and below \<open>1\<close> and \<open>isExpectedPair\<close> does not
  exempt the pair, and zero otherwise; so a pair of similarity \<open>1\<close> is never reported.  The
  similarity and the notion of the pair's warning do not depend on the order of \<open>a\<close> and
  \<open>b\<close>.
\<close>

theorem similar_pair_reported_once:
  assumes "declared_names contracts primitives \<subseteq> Collect is_identifier"
    and "a \<in> declared_names contracts primitives"
    and "b \<in> declared_names contracts primitives"
    and "a \<noteq> b"
  shows "length (filter (is_similar_warning_for a b) (checkNamingConsistency contracts primitives))
       = (if 85 / 100 \<le> similarityRatio (toLowerCase a) (toLowerCase b)
             \<and> similarityRatio (toLowerCase a) (toLowerCase b) < 1
             \<and> \<not> isExpectedPair a b
          then 1 else 0)
     \<and> similarityRatio (toLowerCase a) (toLowerCase b)
         = similarityRatio (toLowerCase b) (toLowerCase a)
     \<and> is_similar_warning_for a b = is_similar_warning_for b a"
proof -
  have ids: "\<forall>n \<in> declared_names contracts primitives. is_identifier n"
    using assms(1) by blast
  have "is_similar_warning_for a b = is_similar_warning_for b a"
    by (auto simp: is_similar_warning_for_def fun_eq_iff)
  then show ?thesis
    using similar_warning_count [OF ids assms(2-4)]
          similarityRatio_sym [of "toLowerCase a" "toLowerCase b"]
    by (simp add: candidate_def name_ratio_def)
qed

text \<open>
  The theorem at the shared vocabulary that declares \<open>UserType\<close> and \<open>UserTypes\<close>, whose
  similarity is \<open>8/9\<close>: one warning.
\<close>

theorem similar_pair_reported_once_witness:
  "declared_names [] userType_primitives \<subseteq> Collect is_identifier
   \<and> ''UserType'' \<in> declared_names [] userType_primitives
   \<and> ''UserTypes'' \<in> declared_names [] userType_primitives
   \<and> ''UserType'' \<noteq> ''UserTypes''
   \<and> similarityRatio (toLowerCase ''UserType'') (toLowerCase ''UserTypes'') = 8 / 9
   \<and> \<not> isExpectedPair ''UserType'' ''UserTypes''
   \<and> length (filter (is_similar_warning_for ''UserType'' ''UserTypes'')
         (checkNamingConsistency [] userType_primitives)) = 1"
proof -
  have "\<forall>n \<in> declared_names [] userType_primitives. is_identifier n"
    by code_simp
  then have h1: "declared_names [] userType_primitives \<subseteq> Collect is_identifier"
    by blast
  have h2: "''UserType'' \<in> declared_names [] userType_primitives"
    by code_simp
  have h3: "''UserTypes'' \<in> declared_names [] userType_primitives"
    by code_simp
  have h4: "''UserType'' \<noteq> ''UserTypes''"
    by simp
  have r: "similarityRatio (toLowerCase ''UserType'') (toLowerCase ''UserTypes'') = 8 / 9"
    by code_simp
  have e: "\<not> isExpectedPair ''UserType'' ''UserTypes''"
    by code_simp
  have "length (filter (is_similar_warning_for ''UserType'' ''UserTypes'')
            (checkNamingConsistency [] userType_primitives))
        = (if 85 / 100 \<le> similarityRatio (toLowerCase ''UserType'') (toLowerCase ''UserTypes'')
             \<and> similarityRatio (toLowerCase ''UserType'') (toLowerCase ''UserTypes'') < 1
             \<and> \<not> isExpectedPair ''UserType'' ''UserTypes''
          then 1 else 0)"
    using similar_pair_reported_once [OF h1 h2 h3 h4] by (rule conjunct1)
  then have "length (filter (is_similar_warning_for ''UserType'' ''UserTypes'')
            (checkNamingConsistency [] userType_primitives)) = 1"
    unfolding r using e by simp
  then show ?thesis
    using h1 h2 h3 r e by simp
qed

subsection \<open>Suppression by a common base\<close>

lemma proper_suffix_free:
  assumes "s \<in> set name_suffixes" "s' \<in> set name_suffixes" "u @ s = s'"
  shows "u = []"
proof -
  have "rev s @ rev u = rev s'"
    using assms(3) by (metis rev_append)
  then show ?thesis
    using assms(1,2) unfolding name_suffixes_def by auto
qed

lemma find_upt_first:
  assumes "k < m" "P k" "\<And>i. i < k \<Longrightarrow> \<not> P i"
  shows "find P [0..<m] = Some k"
  unfolding find_Some_iff
  by (rule exI [of _ k]) (use assms in auto)

lemma strip_name_suffix_append:
  assumes "s \<in> set name_suffixes"
  shows "strip_name_suffix (base @ s) = base"
proof -
  have "find (\<lambda>i. drop i (base @ s) \<in> set name_suffixes) [0..<length (base @ s) + 1]
          = Some (length base)"
  proof (rule find_upt_first)
    show "length base < length (base @ s) + 1" by simp
    show "drop (length base) (base @ s) \<in> set name_suffixes" using assms by simp
    fix i assume i: "i < length base"
    show "drop i (base @ s) \<notin> set name_suffixes"
    proof
      assume "drop i (base @ s) \<in> set name_suffixes"
      then have "drop i base @ s \<in> set name_suffixes" using i by simp
      then have "drop i base = []"
        using proper_suffix_free [OF assms] by blast
      then show False using i by simp
    qed
  qed
  then show ?thesis by (simp add: strip_name_suffix_def)
qed

text \<open>
  C7, as stated, fails.  \<open>UserType\<close> and \<open>UserTypes\<close> are \<open>User\<close> followed by the suffix \<open>Type\<close>
  and by its plural; yet \<open>isExpectedPair\<close> does not exempt the pair, and the warning is
  reported: \<open>Types\<close> is not among the suffixes that are stripped.
\<close>

theorem plural_suffix_not_suppressed:
  "''UserType'' = ''User'' @ ''Type''
   \<and> ''UserTypes'' = ''User'' @ ''Type'' @ ''s''
   \<and> \<not> isExpectedPair ''UserType'' ''UserTypes''
   \<and> checkNamingConsistency [] userType_primitives
       = [similar_names_issue ''UserType'' ''UserTypes'' (8 / 9)
            \<lparr> tn_name = ''UserType'', tn_file = ''shared.types.ts'', tn_line = 3 \<rparr>
            \<lparr> tn_name = ''UserTypes'', tn_file = ''shared.types.ts'', tn_line = 4 \<rparr>]
   \<and> vi_message (similar_names_issue ''UserType'' ''UserTypes'' (8 / 9)
            \<lparr> tn_name = ''UserType'', tn_file = ''shared.types.ts'', tn_line = 3 \<rparr>
            \<lparr> tn_name = ''UserTypes'', tn_file = ''shared.types.ts'', tn_line = 4 \<rparr>)
       = ''Similar names detected: '' @ [CHR 0x27] @ ''UserType'' @ [CHR 0x27] @ '' and ''
           @ [CHR 0x27] @ ''UserTypes'' @ [CHR 0x27] @ '' (89% similar)''"
  by code_simp

text \<open>
  C7, amended.  The suffixes that are stripped are \<open>Id\<close>, \<open>Ref\<close>, \<open>Input\<close>, \<open>Output\<close>,
  \<open>Request\<close>, \<open>Response\<close>, \<open>Type\<close>, \<open>Status\<close>, \<open>Score\<close> and \<open>Scores\<close>; stripping cuts exactly
  such a suffix off a name that ends in one.  Whenever stripping leaves the same base for
  two distinct declared names, \<open>isExpectedPair\<close> exempts the pair and
  \<open>checkNamingConsistency\<close> reports no similar-names warning for it.
\<close>

theorem same_base_pair_suppressed:
  assumes "declared_names contracts primitives \<subseteq> Collect is_identifier"
    and "a \<in> declared_names contracts primitives"
    and "b \<in> declared_names contracts primitives"
    and "a \<noteq> b"
    and "strip_name_suffix a = strip_name_suffix b"
  shows "isExpectedPair a b
     \<and> length (filter (is_similar_warning_for a b)
          (checkNamingConsistency contracts primitives)) = 0
     \<and> list_all (\<lambda>s. strip_name_suffix (base @ s) = base) name_suffixes
     \<and> name_suffixes = [''Id'', ''Ref'', ''Input'', ''Output'', ''Request'', ''Response'',
                         ''Type'', ''Status'', ''Score'', ''Scores'']"
proof -
  have ids: "\<forall>n \<in> declared_names contracts primitives. is_identifier n"
    using assms(1) by blast
  have e: "isExpectedPair a b"
    using assms(5) by (simp add: isExpectedPair_def)
  have "list_all (\<lambda>s. strip_name_suffix (base @ s) = base) name_suffixes"
    by (simp add: list_all_iff strip_name_suffix_append)
  then show ?thesis
    using e similar_warning_count [OF ids assms(2-4)] by (simp add: name_suffixes_def)
qed

text \<open>
  The theorem at \<open>CustomerOrderId\<close> and \<open>CustomerOrder\<close>, whose similarity \<open>13/15\<close> makes them
  a candidate and whose common base is \<open>CustomerOrder\<close>.
\<close>

theorem same_base_pair_suppressed_witness:
  "declared_names [] customer_primitives \<subseteq> Collect is_identifier
   \<and> ''CustomerOrderId'' \<in> declared_names [] customer_primitives
   \<and> ''CustomerOrder'' \<in> declared_names [] customer_primitives
   \<and> ''CustomerOrderId'' \<noteq> ''CustomerOrder''
   \<and> strip_name_suffix ''CustomerOrderId'' = strip_name_suffix ''CustomerOrder''
   \<and> similarityRatio (toLowerCase ''CustomerOrderId'') (toLowerCase ''CustomerOrder'') = 13 / 15
   \<and> isExpectedPair ''CustomerOrderId'' ''CustomerOrder''
   \<and> length (filter (is_similar_warning_for ''CustomerOrderId'' ''CustomerOrder'')
         (checkNamingConsistency [] customer_primitives)) = 0"
proof -
  have "\<forall>n \<in> declared_names [] customer_primitives. is_identifier n"
    by code_simp
  then have h1: "declared_names [] customer_primitives \<subseteq> Collect is_identifier"
    by blast
  have h2: "''CustomerOrderId'' \<in> declared_names [] customer_primitives"
    by code_simp
  have h3: "''CustomerOrder'' \<in> declared_names [] customer_primitives"
    by code_simp
  have h4: "''CustomerOrderId'' \<noteq> ''CustomerOrder''"
    by simp
  have h5: "strip_name_suffix ''CustomerOrderId'' = strip_name_suffix ''CustomerOrder''"
    by code_simp
  have r: "similarityRatio (toLowerCase ''CustomerOrderId'') (toLowerCase ''CustomerOrder'')
             = 13 / 15"
    by code_simp
  have "isExpectedPair ''CustomerOrderId'' ''CustomerOrder''
     \<and> length (filter (is_similar_warning_for ''CustomerOrderId'' ''CustomerOrder'')
          (checkNamingConsistency [] customer_primitives)) = 0"
    using same_base_pair_suppressed [OF h1 h2 h3 h4 h5] by blast
  then show ?thesis
    using h1 h2 h3 h5 r by simp
qed

subsection \<open>Cycle detection\<close>

lemma dfs_recStack_visited:
  "(dfs n g node path st = Some st' \<longrightarrow>
      recStack st' \<subseteq> recStack st \<and> visited st \<subseteq> visited st')"
  "(dfs_neighbors n g path ns st = Some st' \<longrightarrow>
      recStack st' \<subseteq> recStack st \<and> visited st \<subseteq> visited st')"
proof (induction n g node path st and n g path ns st arbitrary: st' and st'
       rule: dfs_dfs_neighbors.induct)
  case (1 g node path st)
  then show ?case by simp
next
  case (2 n g node path st)
  then show ?case by (fastforce split: option.splits)
next
  case (3 n g path st)
  then show ?case by simp
next
  case (4 n g path neighbor rest st)
  show ?case
  proof (intro impI)
    assume run: "dfs_neighbors n g path (neighbor # rest) st = Some st'"
    show "recStack st' \<subseteq> recStack st \<and> visited st \<subseteq> visited st'"
    proof (cases "neighbor \<notin> visited st")
      case True
      then obtain st1 where d: "dfs n g neighbor path st = Some st1"
          and r: "dfs_neighbors n g path rest st1 = Some st'"
        using run by (auto split: option.splits)
      from "4.IH"(1) [OF True] d have "recStack st1 \<subseteq> recStack st \<and> visited st \<subseteq> visited st1"
        by blast
      moreover from "4.IH"(2) [OF True d] r
      have "recStack st' \<subseteq> recStack st1 \<and> visited st1 \<subseteq> visited st'"
        by blast
      ultimately show ?thesis by blast
    next
      case False
      note nv = this
      show ?thesis
      proof (cases "neighbor \<in> recStack st")
        case True
        show ?thesis
        proof (cases "indexOf path neighbor")
          case None
          then show ?thesis
            using "4.IH"(3) [OF nv True None] run nv True by simp
        next
          case (Some k)
          then show ?thesis
            using "4.IH"(4) [OF nv True Some] run nv True by simp
        qed
      next
        case False
        then show ?thesis
          using "4.IH"(5) [OF nv False] run nv by simp
      qed
    qed
  qed
qed

lemma card_unvisited_mono:
  "finite N \<Longrightarrow> V \<subseteq> V' \<Longrightarrow> card (N - V') \<le> card (N - V)"
  by (intro card_mono) auto

lemma dfs_total:
  assumes "finite N"
    and "\<forall>u \<in> N. set (neighbors_of g u) \<subseteq> N"
  shows "node \<in> N \<longrightarrow> node \<notin> visited st \<longrightarrow> card (N - visited st) \<le> n
           \<longrightarrow> (\<exists>st'. dfs n g node path st = Some st')"
    and "set ns \<subseteq> N \<longrightarrow> card (N - visited st) \<le> n
           \<longrightarrow> (\<exists>st'. dfs_neighbors n g path ns st = Some st')"
  using assms
proof (induction n g node path st and n g path ns st rule: dfs_dfs_neighbors.induct)
  case (1 g node path st)
  then have fin: "finite N" by simp
  show ?case
  proof (intro impI)
    assume "node \<in> N" "node \<notin> visited st" "card (N - visited st) \<le> 0"
    then have "N - visited st = {}" using fin by simp
    with \<open>node \<in> N\<close> \<open>node \<notin> visited st\<close> show "\<exists>st'. dfs 0 g node path st = Some st'"
      by blast
  qed
next
  case (2 n g node path st)
  from "2.prems" have fin: "finite N" and closed: "\<forall>u \<in> N. set (neighbors_of g u) \<subseteq> N"
    by simp_all
  show ?case
  proof (intro impI)
    assume node: "node \<in> N" "node \<notin> visited st" and c: "card (N - visited st) \<le> Suc n"
    let ?st1 = "st\<lparr> visited := insert node (visited st), recStack := insert node (recStack st) \<rparr>"
    have "N - visited ?st1 = (N - visited st) - {node}" by auto
    moreover have "node \<in> N - visited st" using node by simp
    ultimately have "card (N - visited ?st1) \<le> n"
      using c fin by (simp add: card_Diff_singleton)
    moreover have "set (neighbors_of g node) \<subseteq> N"
      using closed node(1) by blast
    ultimately obtain st2 where
      "dfs_neighbors n g (path @ [node]) (neighbors_of g node) ?st1 = Some st2"
      using "2.IH" fin closed by blast
    then show "\<exists>st'. dfs (Suc n) g node path st = Some st'"
      by simp
  qed
next
  case (3 n g path st)
  then show ?case by simp
next
  case (4 n g path neighbor rest st)
  from "4.prems" have fin: "finite N" and closed: "\<forall>u \<in> N. set (neighbors_of g u) \<subseteq> N"
    by simp_all
  show ?case
  proof (intro impI)
    assume sub: "set (neighbor # rest) \<subseteq> N" and c: "card (N - visited st) \<le> n"
    show "\<exists>st'. dfs_neighbors n g path (neighbor # rest) st = Some st'"
    proof (cases "neighbor \<notin> visited st")
      case True
      then obtain st1 where d: "dfs n g neighbor path st = Some st1"
        using "4.IH"(1) [OF True fin closed] sub c by auto
      then have "visited st \<subseteq> visited st1"
        using dfs_recStack_visited(1) by blast
      then have "card (N - visited st1) \<le> n"
        using card_unvisited_mono [OF fin] c le_trans by blast
      then obtain st' where "dfs_neighbors n g path rest st1 = Some st'"
        using "4.IH"(2) [OF True d fin closed] sub by auto
      then show ?thesis using True d by simp
    next
      case False
      note nv = this
      show ?thesis
      proof (cases "neighbor \<in> recStack st")
        case True
        show ?thesis
        proof (cases "indexOf path neighbor")
          case None
          then show ?thesis
            using "4.IH"(3) [OF nv True None fin closed] sub c nv True by auto
        next
          case (Some k)
          then show ?thesis
            using "4.IH"(4) [OF nv True Some fin closed] sub c nv True by auto
        qed
      next
        case False
        then show ?thesis
          using "4.IH"(5) [OF nv False fin closed] sub c nv by auto
      qed
    qed
  qed
qed

lemma dfs_acyclic:
  assumes "acyclic (graph_edges g)"
  shows "(\<forall>x \<in> recStack st. (x, node) \<in> (graph_edges g)\<^sup>*)
           \<longrightarrow> dfs n g node path st = Some st' \<longrightarrow> cycles st' = cycles st"
    and "\<forall>node. set ns \<subseteq> set (neighbors_of g node)
           \<longrightarrow> (\<forall>x \<in> recStack st. (x, node) \<in> (graph_edges g)\<^sup>*)
           \<longrightarrow> dfs_neighbors n g path ns st = Some st' \<longrightarrow> cycles st' = cycles st"
  using assms
proof (induction n g node path st and n g path ns st arbitrary: st' and st'
       rule: dfs_dfs_neighbors.induct)
  case (1 g node path st)
  then show ?case by simp
next
  case (2 n g node path st)
  from "2.prems" have acyc: "acyclic (graph_edges g)" .
  show ?case
  proof (intro impI)
    assume inv: "\<forall>x \<in> recStack st. (x, node) \<in> (graph_edges g)\<^sup>*"
      and run: "dfs (Suc n) g node path st = Some st'"
    let ?st1 = "st\<lparr> visited := insert node (visited st), recStack := insert node (recStack st) \<rparr>"
    obtain st2 where r: "dfs_neighbors n g (path @ [node]) (neighbors_of g node) ?st1 = Some st2"
      and st': "st' = st2\<lparr> recStack := recStack st2 - {node} \<rparr>"
      using run by (cases "dfs_neighbors n g (path @ [node]) (neighbors_of g node) ?st1") auto
    have "\<forall>x \<in> recStack ?st1. (x, node) \<in> (graph_edges g)\<^sup>*"
      using inv by simp
    then have "cycles st2 = cycles ?st1"
      using "2.IH" [OF acyc, of st2] r by blast
    then show "cycles st' = cycles st"
      using st' by simp
  qed
next
  case (3 n g path st)
  then show ?case by simp
next
  case (4 n g path neighbor rest st)
  from "4.prems" have acyc: "acyclic (graph_edges g)" .
  show ?case
  proof (intro allI impI)
    fix node
    assume sub: "set (neighbor # rest) \<subseteq> set (neighbors_of g node)"
      and inv: "\<forall>x \<in> recStack st. (x, node) \<in> (graph_edges g)\<^sup>*"
      and run: "dfs_neighbors n g path (neighbor # rest) st = Some st'"
    have edge: "(node, neighbor) \<in> graph_edges g"
      using sub by (simp add: graph_edges_def)
    have sub': "set rest \<subseteq> set (neighbors_of g node)"
      using sub by simp
    show "cycles st' = cycles st"
    proof (cases "neighbor \<notin> visited st")
      case True
      then obtain st1 where d: "dfs n g neighbor path st = Some st1"
          and r: "dfs_neighbors n g path rest st1 = Some st'"
        using run by (cases "dfs n g neighbor path st") auto
      have "\<forall>x \<in> recStack st. (x, neighbor) \<in> (graph_edges g)\<^sup>*"
      proof
        fix x assume "x \<in> recStack st"
        then have "(x, node) \<in> (graph_edges g)\<^sup>*" using inv by blast
        then show "(x, neighbor) \<in> (graph_edges g)\<^sup>*"
          using edge by (rule rtrancl_into_rtrancl)
      qed
      then have c1: "cycles st1 = cycles st"
        using "4.IH"(1) [OF True acyc, of st1] d by blast
      have "recStack st1 \<subseteq> recStack st"
        using dfs_recStack_visited(1) d by blast
      then have "\<forall>x \<in> recStack st1. (x, node) \<in> (graph_edges g)\<^sup>*"
        using inv by blast
      then have "cycles st' = cycles st1"
        using "4.IH"(2) [OF True d acyc, of st'] sub' r by blast
      with c1 show ?thesis by simp
    next
      case False
      note nv = this
      show ?thesis
      proof (cases "neighbor \<in> recStack st")
        case True
        then have "(neighbor, node) \<in> (graph_edges g)\<^sup>*"
          using inv by blast
        then have "(neighbor, neighbor) \<in> (graph_edges g)\<^sup>+"
          using edge by (rule rtrancl_into_trancl1)
        then show ?thesis
          using acyc unfolding acyclic_def by blast
      next
        case False
        then have "dfs_neighbors n g path rest st = Some st'"
          using run nv by simp
        then show ?thesis
          using "4.IH"(5) [OF nv False acyc, of st'] sub' inv by blast
      qed
    qed
  qed
qed

lemma detect_loop_total:
  assumes "finite N" "\<forall>u \<in> N. set (neighbors_of g u) \<subseteq> N"
    and "set keys \<subseteq> N" "card (N - visited st) \<le> n"
  shows "\<exists>st'. detect_loop n g keys st = Some st'"
  using assms(3,4)
proof (induction keys arbitrary: st)
  case Nil
  then show ?case by simp
next
  case (Cons node rest)
  show ?case
  proof (cases "node \<notin> visited st")
    case True
    then obtain st1 where d: "dfs n g node [] st = Some st1"
      using dfs_total(1) [OF assms(1,2), of node st n "[]"] Cons.prems by auto
    then have "visited st \<subseteq> visited st1"
      using dfs_recStack_visited(1) by blast
    then have "card (N - visited st1) \<le> n"
      using card_unvisited_mono [OF assms(1)] Cons.prems(2) le_trans by blast
    then obtain st' where "detect_loop n g rest st1 = Some st'"
      using Cons.IH [of st1] Cons.prems(1) by auto
    then show ?thesis using True d by simp
  next
    case False
    then show ?thesis
      using Cons.IH [of st] Cons.prems by auto
  qed
qed

lemma detect_loop_acyclic:
  assumes "acyclic (graph_edges g)"
  shows "recStack st = {} \<Longrightarrow> detect_loop n g keys st = Some st' \<Longrightarrow> cycles st' = cycles st"
proof (induction keys arbitrary: st)
  case Nil
  then show ?case by simp
next
  case (Cons node rest)
  show ?case
  proof (cases "node \<notin> visited st")
    case True
    then obtain st1 where d: "dfs n g node [] st = Some st1"
        and r: "detect_loop n g rest st1 = Some st'"
      using Cons.prems(2) by (cases "dfs n g node [] st") auto
    have c1: "cycles st1 = cycles st"
      using dfs_acyclic(1) [OF assms, of st node n "[]" st1] Cons.prems(1) d by simp
    have "recStack st1 = {}"
      using dfs_recStack_visited(1) [of n g node "[]" st st1] d Cons.prems(1) by simp
    then have "cycles st' = cycles st1"
      using Cons.IH [of st1] r by simp
    with c1 show ?thesis by simp
  next
    case False
    then show ?thesis
      using Cons.IH [of st] Cons.prems by simp
  qed
qed

lemma graph_nodes_closed:
  "\<forall>u \<in> set (graph_nodes g). set (neighbors_of g u) \<subseteq> set (graph_nodes g)"
proof (intro ballI subsetI)
  fix u v assume "v \<in> set (neighbors_of g u)"
  then obtain ns where "map_of g u = Some ns" "v \<in> set ns"
    by (cases "map_of g u") (auto simp: neighbors_of_def)
  then have "(u, ns) \<in> set g" by (auto dest: map_of_SomeD)
  with \<open>v \<in> set ns\<close> show "v \<in> set (graph_nodes g)"
    by (force simp: graph_nodes_def)
qed

lemma detectCycles_total: "\<exists>cs. detectCycles g = Some cs"
proof -
  have "card (set (graph_nodes g) - {}) \<le> length (graph_nodes g)"
    by (simp add: card_length)
  moreover have "set (map fst g) \<subseteq> set (graph_nodes g)"
    by (auto simp: graph_nodes_def)
  ultimately obtain st' where
    "detect_loop (length (graph_nodes g)) g (map fst g)
       \<lparr> cycles = [], visited = {}, recStack = {} \<rparr> = Some st'"
    using detect_loop_total [OF _ graph_nodes_closed, of g "map fst g"
            "\<lparr> cycles = [], visited = {}, recStack = {} \<rparr>" "length (graph_nodes g)"]
    by auto
  then show ?thesis by (simp add: detectCycles_def)
qed

lemma detectCycles_acyclic:
  assumes "acyclic (graph_edges g)"
  shows "detectCycles g = Some []"
proof -
  obtain cs where cs: "detectCycles g = Some cs"
    using detectCycles_total by blast
  then obtain st' where st': "detect_loop (length (graph_nodes g)) g (map fst g)
       \<lparr> cycles = [], visited = {}, recStack = {} \<rparr> = Some st'" and "cs = cycles st'"
    by (auto simp: detectCycles_def)
  moreover have "cycles st' = []"
    using detect_loop_acyclic [OF assms _ st'] by simp
  ultimately show ?thesis using cs by simp
qed

text \<open>
  C4.  On a graph without a cycle \<open>detectCycles\<close> returns, and returns the empty list.  On
  the graph of three distinct nodes with the edges \<open>a \<rightarrow> b\<close>, \<open>b \<rightarrow> c\<close> and \<open>c \<rightarrow> a\<close> it returns
  exactly one cycle, whichever of the six orders the keys of the graph have, so whichever
  node the traversal starts from: the three nodes in path order from the first key on,
  closed by the first key.
\<close>

theorem detectCycles_acyclic_and_triangle:
  "(acyclic (graph_edges g) \<longrightarrow> detectCycles g = Some [])
   \<and> (a \<noteq> b \<and> b \<noteq> c \<and> a \<noteq> c \<longrightarrow>
        detectCycles [(a, [b]), (b, [c]), (c, [a])] = Some [[a, b, c, a]]
      \<and> detectCycles [(a, [b]), (c, [a]), (b, [c])] = Some [[a, b, c, a]]
      \<and> detectCycles [(b, [c]), (a, [b]), (c, [a])] = Some [[b, c, a, b]]
      \<and> detectCycles [(b, [c]), (c, [a]), (a, [b])] = Some [[b, c, a, b]]
      \<and> detectCycles [(c, [a]), (a, [b]), (b, [c])] = Some [[c, a, b, c]]
      \<and> detectCycles [(c, [a]), (b, [c]), (a, [b])] = Some [[c, a, b, c]])"
proof (rule conjI)
  show "acyclic (graph_edges g) \<longrightarrow> detectCycles g = Some []"
    using detectCycles_acyclic by blast
next
  show "a \<noteq> b \<and> b \<noteq> c \<and> a \<noteq> c \<longrightarrow>
        detectCycles [(a, [b]), (b, [c]), (c, [a])] = Some [[a, b, c, a]]
      \<and> detectCycles [(a, [b]), (c, [a]), (b, [c])] = Some [[a, b, c, a]]
      \<and> detectCycles [(b, [c]), (a, [b]), (c, [a])] = Some [[b, c, a, b]]
      \<and> detectCycles [(b, [c]), (c, [a]), (a, [b])] = Some [[b, c, a, b]]
      \<and> detectCycles [(c, [a]), (a, [b]), (b, [c])] = Some [[c, a, b, c]]
      \<and> detectCycles [(c, [a]), (b, [c]), (a, [b])] = Some [[c, a, b, c]]"
  proof (rule impI)
    assume "a \<noteq> b \<and> b \<noteq> c \<and> a \<noteq> c"
    then have "a \<noteq> b" "b \<noteq> c" "a \<noteq> c" "b \<noteq> a" "c \<noteq> b" "c \<noteq> a"
      by auto
    then show "detectCycles [(a, [b]), (b, [c]), (c, [a])] = Some [[a, b, c, a]]
      \<and> detectCycles [(a, [b]), (c, [a]), (b, [c])] = Some [[a, b, c, a]]
      \<and> detectCycles [(b, [c]), (a, [b]), (c, [a])] = Some [[b, c, a, b]]
      \<and> detectCycles [(b, [c]), (c, [a]), (a, [b])] = Some [[b, c, a, b]]
      \<and> detectCycles [(c, [a]), (a, [b]), (b, [c])] = Some [[c, a, b, c]]
      \<and> detectCycles [(c, [a]), (b, [c]), (a, [b])] = Some [[c, a, b, c]]"
      by (simp add: detectCycles_def graph_nodes_def neighbors_of_def eval_nat_numeral)
  qed
qed

text \<open>
  The theorem at the chain \<open>A \<rightarrow> B \<rightarrow> C\<close>, which has no cycle, and at the nodes \<open>A\<close>, \<open>B\<close>
  and \<open>C\<close>.
\<close>

theorem detectCycles_acyclic_and_triangle_witness:
  "acyclic (graph_edges [(''A'', [''B'']), (''B'', [''C'']), (''C'', [])])
   \<and> detectCycles [(''A'', [''B'']), (''B'', [''C'']), (''C'', [])] = Some []
   \<and> ''A'' \<noteq> ''B'' \<and> ''B'' \<noteq> ''C'' \<and> ''A'' \<noteq> ''C''
   \<and> detectCycles [(''A'', [''B'']), (''B'', [''C'']), (''C'', [''A''])]
       = Some [[''A'', ''B'', ''C'', ''A'']]
   \<and> detectCycles [(''A'', [''B'']), (''C'', [''A'']), (''B'', [''C''])]
       = Some [[''A'', ''B'', ''C'', ''A'']]
   \<and> detectCycles [(''B'', [''C'']), (''A'', [''B'']), (''C'', [''A''])]
       = Some [[''B'', ''C'', ''A'', ''B'']]
   \<and> detectCycles [(''B'', [''C'']), (''C'', [''A'']), (''A'', [''B''])]
       = Some [[''B'', ''C'', ''A'', ''B'']]
   \<and> detectCycles [(''C'', [''A'']), (''A'', [''B'']), (''B'', [''C''])]
       = Some [[''C'', ''A'', ''B'', ''C'']]
   \<and> detectCycles [(''C'', [''A'']), (''B'', [''C'']), (''A'', [''B''])]
       = Some [[''C'', ''A'', ''B'', ''C'']]"
proof -
  have "graph_edges [(''A'', [''B'']), (''B'', [''C'']), (''C'', [])]
          = {(''A'', ''B''), (''B'', ''C'')}"
    by (auto simp: graph_edges_def neighbors_of_def split: if_splits)
  moreover have "acyclic ({} :: (string \<times> string) set)"
    by (simp add: acyclic_def)
  then have "acyclic {(''A'', ''B''), (''B'', ''C'')}"
    by (simp add: acyclic_insert rtrancl_insert)
  ultimately have h1: "acyclic (graph_edges [(''A'', [''B'']), (''B'', [''C'']), (''C'', [])])"
    by simp
  have h2: "''A'' \<noteq> ''B'' \<and> ''B'' \<noteq> ''C'' \<and> ''A'' \<noteq> ''C''"
    by simp
  show ?thesis
    using h1 h2
      detectCycles_acyclic_and_triangle
        [of "[(''A'', [''B'']), (''B'', [''C'']), (''C'', [])]" "''A''" "''B''" "''C''"]
    by blast
qed

subsection \<open>Line numbers of a fenced region\<close>

text \<open>
  C8 does not hold of \<open>parseContract\<close>.  In the document \<open>user_contract_doc\<close> the import of
  \<open>OrderId\<close> stands on line 4 and the alias \<open>UserId\<close> on line 5 (the elements 3 and 4 of
  its lines, counted from 0); the recorded lines are 3 and 4.  \<open>codeBlockStartLine\<close> is the
  line of the opening fence, and the offset of a construct in the region counts from 0,
  so every recorded line is one less than the line in the document.  The other caller,
  \<open>parseSharedPrimitives\<close> on a plain file, passes 1 for the first line, and a declaration
  on the first line is recorded on line 1.
\<close>

theorem fenced_lines_off_by_one:
  "user_contract_lines ! 3
     = ''import { OrderId } from '' @ [CHR 0x27] @ ''../shared/shared.types'' @ [CHR 0x27] @ '';''
   \<and> user_contract_lines ! 4 = ''export type UserId = string;''
   \<and> split_on CHR 0x0A user_contract_doc = user_contract_lines
   \<and> map (\<lambda>i. (imp_name i, imp_line i))
         (pc_imports (parseContent basename ''USER-CONTRACT.md'' user_contract_doc))
       = [(''OrderId'', 3)]
   \<and> map (\<lambda>t. (td_name t, td_line t))
         (pc_types (parseContent basename ''USER-CONTRACT.md'' user_contract_doc))
       = [(''UserId'', 4)]
   \<and> map (\<lambda>t. (td_name t, td_line t)) (extractTypes ''export type UserId = string;'' 1)
       = [(''UserId'', 1)]"
  by code_simp

subsection \<open>A run on the shared vocabulary alone\<close>

lemma set_jsmap_set: "set (jsmap_set m k v) \<subseteq> insert (k, v) (set m)"
  by (induction m k v rule: jsmap_set.induct) auto

lemma primitive_entries_singletons:
  "\<forall>e \<in> set (primitive_entries p). length (snd e) = 1"
proof -
  have step: "(\<forall>e \<in> set m. length (snd e) = 1) \<Longrightarrow>
        \<forall>e \<in> set (foldl (\<lambda>m (name, t). jsmap_set m name [(t, f)]) m ps). length (snd e) = 1"
    for m ps and f :: string
  proof (induction ps arbitrary: m)
    case Nil
    then show ?case by simp
  next
    case (Cons a ps)
    obtain n t where a: "a = (n, t)" by (cases a)
    have "\<forall>e \<in> set (jsmap_set m n [(t, f)]). length (snd e) = 1"
      using Cons.prems set_jsmap_set [of m n "[(t, f)]"] by auto
    then show ?case
      using Cons.IH [of "jsmap_set m n [(t, f)]"] by (simp add: a)
  qed
  show ?thesis
    unfolding primitive_entries_def
    by (rule step) simp
qed

lemma compare_singletons:
  "\<forall>e \<in> set m. length (snd e) = 1 \<Longrightarrow> foldl compare_definitions acc m = acc"
  by (induction m arbitrary: acc) (auto simp: compare_definitions_def)

lemma checkTypeShapeCompatibility_no_contracts:
  "checkTypeShapeCompatibility [] p = []"
proof -
  have "typesByName_of [] p = primitive_entries p"
    by (simp add: typesByName_of_alt)
  then show ?thesis
    using compare_singletons [OF primitive_entries_singletons, where acc = "[]" and p1 = p]
    by (simp add: checkTypeShapeCompatibility_def Let_def)
qed

lemma checkImportResolution_no_contracts: "checkImportResolution [] p = []"
  by (simp add: checkImportResolution_def Let_def)

lemma detectCycles_empty: "detectCycles [] = Some []"
  by (simp add: detectCycles_def graph_nodes_def)

lemma checkCircularDependencies_no_contracts:
  "checkCircularDependencies basename [] = Some ([], [])"
  by (simp add: checkCircularDependencies_def build_graph_def detectCycles_empty)

lemma similar_issue_step_shape:
  "\<forall>i \<in> set (similar_issue_step entries [] s).
      \<exists>name1 name2 ratio type1 type2.
        i = similar_names_issue name1 name2 ratio type1 type2
        \<and> type1 \<in> set entries \<and> type2 \<in> set entries
        \<and> tn_name type1 = name1 \<and> tn_name type2 = name2"
proof -
  obtain name1 name2 ratio where s: "s = (name1, name2, ratio)" by (cases s)
  show ?thesis
  proof (cases "isExpectedPair name1 name2")
    case True
    then show ?thesis by (simp add: s similar_issue_step_def)
  next
    case False
    show ?thesis
    proof (cases "find (\<lambda>t. tn_name t = name1) entries")
      case None
      then show ?thesis using False by (simp add: s similar_issue_step_def)
    next
      case (Some type1)
      note t1 = this
      show ?thesis
      proof (cases "find (\<lambda>t. tn_name t = name2) entries")
        case None
        then show ?thesis using False t1 by (simp add: s similar_issue_step_def)
      next
        case (Some type2)
        have "type1 \<in> set entries \<and> tn_name type1 = name1"
          using t1 by (auto simp: find_Some_iff)
        moreover have "type2 \<in> set entries \<and> tn_name type2 = name2"
          using Some by (auto simp: find_Some_iff)
        ultimately show ?thesis
          using False t1 Some by (auto simp: s similar_issue_step_def)
      qed
    qed
  qed
qed

lemma naming_no_contracts_shape:
  assumes "i \<in> set (checkNamingConsistency [] p)"
  shows "\<exists>name1 name2 ratio type1 type2.
        i = similar_names_issue name1 name2 ratio type1 type2
        \<and> name1 \<in> fst ` set (prim_types p) \<and> name2 \<in> fst ` set (prim_types p)
        \<and> tn_file type1 = prim_filePath p \<and> tn_file type2 = prim_filePath p"
proof -
  let ?entries = "allTypeNames_of [] p"
  have ent: "?entries = map (\<lambda>e. \<lparr> tn_name = fst e, tn_file = prim_filePath p,
                                      tn_line = td_line (snd e) \<rparr>) (prim_types p)"
  proof -
    have "foldl (\<lambda>acc (name, t). acc @ [\<lparr> tn_name = name, tn_file = prim_filePath p,
                                         tn_line = td_line t \<rparr>]) [] (prim_types p)
               = [] @ concat (map (\<lambda>e. [\<lparr> tn_name = fst e, tn_file = prim_filePath p,
                                               tn_line = td_line (snd e) \<rparr>]) (prim_types p))"
      by (rule foldl_append_conv) (simp add: split_beta)
    then show ?thesis by (simp add: allTypeNames_of_def)
  qed
  have "checkNamingConsistency [] p
          = concat (map (similar_issue_step ?entries [])
                      (findSimilarNames (map tn_name ?entries) (85 / 100)))"
    by (simp add: checkNamingConsistency_def Let_def similar_loop_conv)
  then obtain s where "i \<in> set (similar_issue_step ?entries [] s)"
    using assms by auto
  then obtain name1 name2 ratio type1 type2 where
      i: "i = similar_names_issue name1 name2 ratio type1 type2"
      and t: "type1 \<in> set ?entries" "type2 \<in> set ?entries"
      and n: "tn_name type1 = name1" "tn_name type2 = name2"
    using similar_issue_step_shape [of ?entries s] by blast
  from t have "tn_file type1 = prim_filePath p" "tn_file type2 = prim_filePath p"
      "tn_name type1 \<in> fst ` set (prim_types p)" "tn_name type2 \<in> fst ` set (prim_types p)"
    unfolding ent by force+
  with i n show ?thesis by blast
qed

lemma parseSharedPrimitives_exists:
  assumes "fs path = Some content"
  shows "\<exists>p. parseSharedPrimitives fs basename path = Inr p \<and> prim_filePath p = path"
  using assms
  by (simp add: parseSharedPrimitives_def readFileSync_def parseContract_def)

text \<open>
  C10.  When the file of the shared vocabulary exists and the list of contracts is empty,
  \<open>verifyContracts\<close> returns a report.  Its issues are those of the naming check on the
  parsed vocabulary; each is a warning of category naming, the similar-names warning of
  two names that the vocabulary declares, filed under the vocabulary; no issue has
  severity error, and the report has passed.
\<close>

theorem verifyContracts_vocabulary_only:
  assumes "fs (primitivesPath options) = Some content"
    and "contractPaths options = []"
  shows "\<exists>p r. parseSharedPrimitives fs basename (primitivesPath options) = Inr p
           \<and> verifyContracts fs basename now options = Some (Inr r)
           \<and> issues r = checkNamingConsistency [] p
           \<and> list_all (\<lambda>i. vi_severity i = Warning \<and> vi_category i = Naming
                            \<and> vi_file i = primitivesPath options
                            \<and> (\<exists>name1 name2 ratio type1 type2.
                                  i = similar_names_issue name1 name2 ratio type1 type2
                                  \<and> name1 \<in> fst ` set (prim_types p)
                                  \<and> name2 \<in> fst ` set (prim_types p)))
               (issues r)
           \<and> filter (\<lambda>i. vi_severity i = Error) (issues r) = []
           \<and> passed r"
proof -
  obtain p where p: "parseSharedPrimitives fs basename (primitivesPath options) = Inr p"
      and path: "prim_filePath p = primitivesPath options"
    using parseSharedPrimitives_exists
            [where fs = fs and path = "primitivesPath options" and basename = basename,
             OF assms(1)]
    by blast
  define iss where "iss = checkNamingConsistency [] p"
  define r where "r = generateReport now p [] iss []"
  have run: "verifyContracts fs basename now options = Some (Inr r)"
    by (simp add: verifyContracts_def p assms(2) checkCircularDependencies_no_contracts
          checkImportResolution_no_contracts checkTypeShapeCompatibility_no_contracts
          r_def iss_def)
  have warn: "\<forall>i \<in> set iss. vi_severity i = Warning \<and> vi_category i = Naming
                \<and> vi_file i = primitivesPath options
                \<and> (\<exists>name1 name2 ratio type1 type2.
                      i = similar_names_issue name1 name2 ratio type1 type2
                      \<and> name1 \<in> fst ` set (prim_types p)
                      \<and> name2 \<in> fst ` set (prim_types p))"
  proof
    fix i assume "i \<in> set iss"
    then have "i \<in> set (checkNamingConsistency [] p)"
      by (simp only: iss_def)
    then obtain name1 name2 ratio type1 type2 where
      i: "i = similar_names_issue name1 name2 ratio type1 type2"
      and n: "name1 \<in> fst ` set (prim_types p)" "name2 \<in> fst ` set (prim_types p)"
      and f: "tn_file type1 = prim_filePath p"
      using naming_no_contracts_shape [of i p] by blast
    have "vi_severity i = Warning" "vi_category i = Naming" "vi_file i = primitivesPath options"
      using f by (simp_all add: i similar_names_issue_def path)
    moreover have "\<exists>name1 name2 ratio type1 type2.
                      i = similar_names_issue name1 name2 ratio type1 type2
                      \<and> name1 \<in> fst ` set (prim_types p)
                      \<and> name2 \<in> fst ` set (prim_types p)"
      using i n by blast
    ultimately show "vi_severity i = Warning \<and> vi_category i = Naming
                \<and> vi_file i = primitivesPath options
                \<and> (\<exists>name1 name2 ratio type1 type2.
                      i = similar_names_issue name1 name2 ratio type1 type2
                      \<and> name1 \<in> fst ` set (prim_types p)
                      \<and> name2 \<in> fst ` set (prim_types p))"
      by (intro conjI)
  qed
  have issues_r: "issues r = iss"
    by (simp add: r_def generateReport_def Let_def)
  have noerr: "filter (\<lambda>i. vi_severity i = Error) iss = []"
    unfolding filter_empty_conv using warn by auto
  have pass: "passed r"
    using noerr by (simp add: r_def generateReport_def Let_def)
  have c1: "issues r = checkNamingConsistency [] p"
    by (simp only: issues_r iss_def)
  have c2: "list_all (\<lambda>i. vi_severity i = Warning \<and> vi_category i = Naming
                            \<and> vi_file i = primitivesPath options
                            \<and> (\<exists>name1 name2 ratio type1 type2.
                                  i = similar_names_issue name1 name2 ratio type1 type2
                                  \<and> name1 \<in> fst ` set (prim_types p)
                                  \<and> name2 \<in> fst ` set (prim_types p)))
               (issues r)"
    unfolding issues_r list_all_iff by (rule warn)
  have c3: "filter (\<lambda>i. vi_severity i = Error) (issues r) = []"
    unfolding issues_r by (rule noerr)
  show ?thesis
    by (rule exI [of _ p], rule exI [of _ r]) (intro conjI p run c1 c2 c3 pass)
qed

text \<open>
  The theorem at a file system that holds only a shared vocabulary declaring \<open>UserType\<close>
  and \<open>UserTypes\<close>.
\<close>

theorem verifyContracts_vocabulary_only_witness:
  "vocabulary_only_fs (primitivesPath vocabulary_only_options)
     = Some (join [CHR 0x0A] [''export type UserType = string;'',
                              ''export type UserTypes = string;'', []])
   \<and> contractPaths vocabulary_only_options = []
   \<and> (\<exists>p r. parseSharedPrimitives vocabulary_only_fs (\<lambda>path ext. path)
                 (primitivesPath vocabulary_only_options) = Inr p
           \<and> verifyContracts vocabulary_only_fs (\<lambda>path ext. path) 0 vocabulary_only_options
               = Some (Inr r)
           \<and> issues r = checkNamingConsistency [] p
           \<and> list_all (\<lambda>i. vi_severity i = Warning \<and> vi_category i = Naming
                            \<and> vi_file i = primitivesPath vocabulary_only_options
                            \<and> (\<exists>name1 name2 ratio type1 type2.
                                  i = similar_names_issue name1 name2 ratio type1 type2
                                  \<and> name1 \<in> fst ` set (prim_types p)
                                  \<and> name2 \<in> fst ` set (prim_types p)))
               (issues r)
           \<and> filter (\<lambda>i. vi_severity i = Error) (issues r) = []
           \<and> passed r)"
proof -
  have h1: "vocabulary_only_fs (primitivesPath vocabulary_only_options)
     = Some (join [CHR 0x0A] [''export type UserType = string;'',
                              ''export type UserTypes = string;'', []])"
    by (simp add: vocabulary_only_fs_def vocabulary_only_options_def)
  have h2: "contractPaths vocabulary_only_options = []"
    by (simp add: vocabulary_only_options_def)
  show ?thesis
    by (intro conjI h1 h2
          verifyContracts_vocabulary_only
            [where fs = vocabulary_only_fs and options = vocabulary_only_options
               and basename = "\<lambda>path ext. path" and now = 0, OF h1 h2])
qed


end
